theory Spec2Isabelle
  imports Main
begin

section \<open>Errors\<close>

text \<open>
  \<^verbatim>\<open>CRAB_ERROR(...)\<close> aborts the computation. Every call site becomes a branch that returns
  an error value; the first four constructors are the kinds of the error taxonomy.
  \<open>AssertionFailed\<close> is a failed \<^verbatim>\<open>assert\<close>, \<open>DanglingReference\<close> the use of a reference to a
  block that was removed, and \<open>OutOfFuel\<close> the end of the bound on the depth of a recursion.
\<close>

datatype error =
    UndefinedArithmetic
  | DivisionByZero
  | NoExit
  | UnknownLabel
  | AssertionFailed
  | DanglingReference
  | OutOfFuel

section \<open>Bounds (class \<^verbatim>\<open>bound_t\<close>, interval.hpp)\<close>

text \<open>
  The class has the two fields \<^verbatim>\<open>_is_infinite\<close> and \<^verbatim>\<open>_n\<close>; \<^verbatim>\<open>number_t\<close> is an
  arbitrary-precision integer and becomes \<^typ>\<open>int\<close>.
\<close>

record bound_t =
  b_is_infinite :: bool
  b_n :: int

text \<open>The private constructor \<^verbatim>\<open>bound_t(bool is_infinite, number_t n)\<close>.\<close>

definition mk_bound :: "bool \<Rightarrow> int \<Rightarrow> bound_t" where
  "mk_bound inf_flag k =
     \<lparr>b_is_infinite = inf_flag, b_n = (if inf_flag then (if k > 0 then 1 else -1) else k)\<rparr>"

text \<open>The public constructor \<^verbatim>\<open>bound_t(number_t n)\<close> (and \<^verbatim>\<open>bound_t(int n)\<close>).\<close>

definition bound_of :: "int \<Rightarrow> bound_t" where
  "bound_of k = \<lparr>b_is_infinite = False, b_n = k\<rparr>"

definition plus_infinity :: bound_t where
  "plus_infinity = mk_bound True 1"

definition minus_infinity :: bound_t where
  "minus_infinity = mk_bound True (-1)"

definition is_infinite :: "bound_t \<Rightarrow> bool" where
  "is_infinite b = b_is_infinite b"

definition is_finite :: "bound_t \<Rightarrow> bool" where
  "is_finite b = (\<not> b_is_infinite b)"

definition is_plus_infinity :: "bound_t \<Rightarrow> bool" where
  "is_plus_infinity b = (is_infinite b \<and> b_n b > 0)"

definition is_minus_infinity :: "bound_t \<Rightarrow> bool" where
  "is_minus_infinity b = (is_infinite b \<and> b_n b < 0)"

text \<open>
  Every bound the public interface can build (\<^verbatim>\<open>bound_t(n)\<close>, \<^verbatim>\<open>plus_infinity()\<close>,
  \<^verbatim>\<open>minus_infinity()\<close>, and the results of the operators, which go through the private
  constructor) carries \<^verbatim>\<open>_n = 1\<close> or \<^verbatim>\<open>_n = -1\<close> when it is infinite.
\<close>

definition bound_inv :: "bound_t \<Rightarrow> bool" where
  "bound_inv b = (if b_is_infinite b then b_n b = 1 \<or> b_n b = -1 else True)"

text \<open>Unary \<^verbatim>\<open>operator-\<close>.\<close>

definition bound_neg :: "bound_t \<Rightarrow> bound_t" where
  "bound_neg b = mk_bound (b_is_infinite b) (- b_n b)"

text \<open>\<^verbatim>\<open>operator+\<close>: the last branch is \<^verbatim>\<open>CRAB_ERROR("Bound: undefined operation -oo + +oo")\<close>.\<close>

definition bound_add :: "bound_t \<Rightarrow> bound_t \<Rightarrow> error + bound_t" where
  "bound_add a x =
     (if is_finite a \<and> is_finite x then Inr (bound_of (b_n a + b_n x))
      else if is_finite a \<and> is_infinite x then Inr x
      else if is_infinite a \<and> is_finite x then Inr a
      else if b_n a = b_n x then Inr a
      else Inl UndefinedArithmetic)"

text \<open>Binary \<^verbatim>\<open>operator-\<close> is \<^verbatim>\<open>operator+(x.operator-())\<close>.\<close>

definition bound_sub :: "bound_t \<Rightarrow> bound_t \<Rightarrow> error + bound_t" where
  "bound_sub a x = bound_add a (bound_neg x)"

text \<open>\<^verbatim>\<open>operator*\<close>.\<close>

definition bound_mul :: "bound_t \<Rightarrow> bound_t \<Rightarrow> bound_t" where
  "bound_mul a x =
     (if b_n x = 0 then x
      else if b_n a = 0 then a
      else mk_bound (b_is_infinite a \<or> b_is_infinite x) (b_n a * b_n x))"

text \<open>
  Modelled from the spec: the division of \<^verbatim>\<open>number_t\<close> (crab/bignums.hpp is not among the
  sources). The spec: "truncated-toward-zero integer division consistent with the underlying
  big-integer library". It is only called with a divisor that is not zero.
\<close>

definition number_div :: "int \<Rightarrow> int \<Rightarrow> int" where
  "number_div k l = sgn k * sgn l * (\<bar>k\<bar> div \<bar>l\<bar>)"

text \<open>\<^verbatim>\<open>operator/\<close>: the first branch is \<^verbatim>\<open>CRAB_ERROR("Bound: division by zero")\<close>.\<close>

definition bound_div :: "bound_t \<Rightarrow> bound_t \<Rightarrow> error + bound_t" where
  "bound_div a x =
     (if b_n x = 0 then Inl DivisionByZero
      else if is_finite a \<and> is_finite x then Inr (mk_bound False (number_div (b_n a) (b_n x)))
      else if is_finite a \<and> is_infinite x then
        (if b_n a > 0 then Inr x
         else if b_n a = 0 then Inr a
         else Inr (bound_neg x))
      else if is_infinite a \<and> is_finite x then
        (if b_n x > 0 then Inr a else Inr (bound_neg a))
      else Inr (mk_bound True (b_n a * b_n x)))"

text \<open>\<^verbatim>\<open>operator<=\<close> and \<^verbatim>\<open>operator>=\<close>, then the comparisons defined from them.\<close>

definition bound_le :: "bound_t \<Rightarrow> bound_t \<Rightarrow> bool" where
  "bound_le a x =
     (if b_is_infinite a \<noteq> b_is_infinite x then
        (if b_is_infinite a then b_n a < 0 else b_n x > 0)
      else b_n a \<le> b_n x)"

definition bound_ge :: "bound_t \<Rightarrow> bound_t \<Rightarrow> bool" where
  "bound_ge a x =
     (if b_is_infinite a \<noteq> b_is_infinite x then
        (if b_is_infinite a then b_n a > 0 else b_n x < 0)
      else b_n a \<ge> b_n x)"

definition bound_lt :: "bound_t \<Rightarrow> bound_t \<Rightarrow> bool" where
  "bound_lt a x = (\<not> bound_ge a x)"

definition bound_gt :: "bound_t \<Rightarrow> bound_t \<Rightarrow> bool" where
  "bound_gt a x = (\<not> bound_le a x)"

definition bound_eq :: "bound_t \<Rightarrow> bound_t \<Rightarrow> bool" where
  "bound_eq a x = (b_is_infinite a = b_is_infinite x \<and> b_n a = b_n x)"

text \<open>The static \<^verbatim>\<open>min\<close> and \<^verbatim>\<open>max\<close> with two, three and four arguments.\<close>

definition bound_min :: "bound_t \<Rightarrow> bound_t \<Rightarrow> bound_t" where
  "bound_min x y = (if bound_le x y then x else y)"

definition bound_min3 :: "bound_t \<Rightarrow> bound_t \<Rightarrow> bound_t \<Rightarrow> bound_t" where
  "bound_min3 x y z = bound_min x (bound_min y z)"

definition bound_min4 :: "bound_t \<Rightarrow> bound_t \<Rightarrow> bound_t \<Rightarrow> bound_t \<Rightarrow> bound_t" where
  "bound_min4 x y z t = bound_min x (bound_min3 y z t)"

definition bound_max :: "bound_t \<Rightarrow> bound_t \<Rightarrow> bound_t" where
  "bound_max x y = (if bound_le x y then y else x)"

definition bound_max3 :: "bound_t \<Rightarrow> bound_t \<Rightarrow> bound_t \<Rightarrow> bound_t" where
  "bound_max3 x y z = bound_max x (bound_max y z)"

definition bound_max4 :: "bound_t \<Rightarrow> bound_t \<Rightarrow> bound_t \<Rightarrow> bound_t \<Rightarrow> bound_t" where
  "bound_max4 x y z t = bound_max x (bound_max3 y z t)"

text \<open>\<^verbatim>\<open>number()\<close>.\<close>

definition bound_number :: "bound_t \<Rightarrow> int option" where
  "bound_number b = (if is_infinite b then None else Some (b_n b))"

section \<open>Intervals (class \<^verbatim>\<open>interval_t\<close>, interval.hpp)\<close>

record interval_t =
  i_lb :: bound_t
  i_ub :: bound_t

text \<open>The private constructor \<^verbatim>\<open>interval_t() : _lb(0), _ub(-1)\<close> behind \<^verbatim>\<open>bottom()\<close>.\<close>

definition bottom :: interval_t where
  "bottom = \<lparr>i_lb = bound_of 0, i_ub = bound_of (-1)\<rparr>"

text \<open>\<^verbatim>\<open>interval_t(bound_t lb, bound_t ub)\<close>: normalises to \<open>[0, -1]\<close> only when \<^verbatim>\<open>lb > ub\<close>.\<close>

definition mk_interval :: "bound_t \<Rightarrow> bound_t \<Rightarrow> interval_t" where
  "mk_interval lb ub =
     (if bound_gt lb ub then \<lparr>i_lb = bound_of 0, i_ub = bound_of (-1)\<rparr>
      else \<lparr>i_lb = lb, i_ub = ub\<rparr>)"

text \<open>\<^verbatim>\<open>interval_t(bound_t b)\<close> and \<^verbatim>\<open>interval_t(number_t n)\<close>.\<close>

definition interval_of_bound :: "bound_t \<Rightarrow> interval_t" where
  "interval_of_bound b =
     (if is_infinite b then \<lparr>i_lb = bound_of 0, i_ub = bound_of (-1)\<rparr>
      else \<lparr>i_lb = b, i_ub = b\<rparr>)"

definition interval_of_number :: "int \<Rightarrow> interval_t" where
  "interval_of_number k = \<lparr>i_lb = bound_of k, i_ub = bound_of k\<rparr>"

definition top_interval :: interval_t where
  "top_interval = mk_interval minus_infinity plus_infinity"

definition is_bottom :: "interval_t \<Rightarrow> bool" where
  "is_bottom i = bound_gt (i_lb i) (i_ub i)"

definition is_top :: "interval_t \<Rightarrow> bool" where
  "is_top i = (is_infinite (i_lb i) \<and> is_infinite (i_ub i))"

text \<open>\<^verbatim>\<open>operator==\<close> and \<^verbatim>\<open>operator<=\<close> (inclusion).\<close>

definition interval_eq :: "interval_t \<Rightarrow> interval_t \<Rightarrow> bool" where
  "interval_eq a x =
     (if is_bottom a then is_bottom x
      else bound_eq (i_lb a) (i_lb x) \<and> bound_eq (i_ub a) (i_ub x))"

definition interval_le :: "interval_t \<Rightarrow> interval_t \<Rightarrow> bool" where
  "interval_le a x =
     (if is_bottom a then True
      else if is_bottom x then False
      else bound_le (i_lb x) (i_lb a) \<and> bound_le (i_ub a) (i_ub x))"

text \<open>\<^verbatim>\<open>operator|\<close> (join) and \<^verbatim>\<open>operator&\<close> (meet).\<close>

definition join :: "interval_t \<Rightarrow> interval_t \<Rightarrow> interval_t" where
  "join a x =
     (if is_bottom a then x
      else if is_bottom x then a
      else mk_interval (bound_min (i_lb a) (i_lb x)) (bound_max (i_ub a) (i_ub x)))"

definition meet :: "interval_t \<Rightarrow> interval_t \<Rightarrow> interval_t" where
  "meet a x =
     (if is_bottom a \<or> is_bottom x then bottom
      else mk_interval (bound_max (i_lb a) (i_lb x)) (bound_min (i_ub a) (i_ub x)))"

text \<open>\<^verbatim>\<open>widen\<close>: \<open>a\<close> is the previous value (\<^verbatim>\<open>*this\<close>), \<open>x\<close> the next one.\<close>

definition widen :: "interval_t \<Rightarrow> interval_t \<Rightarrow> interval_t" where
  "widen a x =
     (if is_bottom a then x
      else if is_bottom x then a
      else mk_interval (if bound_lt (i_lb x) (i_lb a) then minus_infinity else i_lb a)
                       (if bound_lt (i_ub a) (i_ub x) then plus_infinity else i_ub a))"

definition narrow :: "interval_t \<Rightarrow> interval_t \<Rightarrow> interval_t" where
  "narrow a x =
     (if is_bottom a \<or> is_bottom x then bottom
      else mk_interval
             (if is_infinite (i_lb a) \<and> is_finite (i_lb x) then i_lb x else i_lb a)
             (if is_infinite (i_ub a) \<and> is_finite (i_ub x) then i_ub x else i_ub a))"

text \<open>
  \<^verbatim>\<open>operator+\<close>, unary and binary \<^verbatim>\<open>operator-\<close>: the sums of bounds may stop at
  \<^verbatim>\<open>CRAB_ERROR\<close>, and then so does the interval operation.
\<close>

definition interval_add :: "interval_t \<Rightarrow> interval_t \<Rightarrow> error + interval_t" where
  "interval_add a x =
     (if is_bottom a \<or> is_bottom x then Inr bottom
      else case bound_add (i_lb a) (i_lb x) of
             Inl e \<Rightarrow> Inl e
           | Inr l \<Rightarrow> (case bound_add (i_ub a) (i_ub x) of
                         Inl e \<Rightarrow> Inl e
                       | Inr u \<Rightarrow> Inr (mk_interval l u)))"

definition interval_neg :: "interval_t \<Rightarrow> interval_t" where
  "interval_neg a =
     (if is_bottom a then bottom
      else mk_interval (bound_neg (i_ub a)) (bound_neg (i_lb a)))"

definition interval_sub :: "interval_t \<Rightarrow> interval_t \<Rightarrow> error + interval_t" where
  "interval_sub a x =
     (if is_bottom a \<or> is_bottom x then Inr bottom
      else case bound_sub (i_lb a) (i_ub x) of
             Inl e \<Rightarrow> Inl e
           | Inr l \<Rightarrow> (case bound_sub (i_ub a) (i_lb x) of
                         Inl e \<Rightarrow> Inl e
                       | Inr u \<Rightarrow> Inr (mk_interval l u)))"


text \<open>\<^verbatim>\<open>singleton()\<close> and \<^verbatim>\<open>operator[]\<close> (membership of a number).\<close>

definition singleton :: "interval_t \<Rightarrow> int option" where
  "singleton i =
     (if \<not> is_bottom i \<and> bound_eq (i_lb i) (i_ub i) then bound_number (i_lb i) else None)"

definition contains :: "interval_t \<Rightarrow> int \<Rightarrow> bool" where
  "contains i k =
     (if is_bottom i then False
      else bound_le (i_lb i) (bound_of k) \<and> bound_le (bound_of k) (i_ub i))"

text \<open>\<^verbatim>\<open>UDiv\<close>, the one bitwise or modular operation whose body is in the header.\<close>

definition UDiv :: "interval_t \<Rightarrow> interval_t \<Rightarrow> interval_t" where
  "UDiv a x = (if is_bottom a \<or> is_bottom x then bottom else top_interval)"

text \<open>The bounds of an interval are bounds of the class.\<close>

definition interval_inv :: "interval_t \<Rightarrow> bool" where
  "interval_inv i = (bound_inv (i_lb i) \<and> bound_inv (i_ub i))"

text \<open>
  The intervals \<open>[+oo, +oo]\<close> and \<open>[-oo, -oo]\<close>: the two-bound constructor keeps them, since
  their lower bound is not greater than their upper bound.
\<close>

definition is_infinite_singleton :: "interval_t \<Rightarrow> bool" where
  "is_infinite_singleton i =
     ((is_plus_infinity (i_lb i) \<and> is_plus_infinity (i_ub i)) \<or>
      (is_minus_infinity (i_lb i) \<and> is_minus_infinity (i_ub i)))"

text \<open>
  The widening sequence of a chain \<open>x\<close>: \<open>y\<^sub>0 = x\<^sub>0\<close> and \<open>y\<^sub>i\<^sub>+\<^sub>1 = widen(y\<^sub>i, x\<^sub>i\<^sub>+\<^sub>1)\<close>, and the number
  of steps below \<open>n\<close> at which its value changes (compared with \<^verbatim>\<open>operator==\<close>).
\<close>

primrec widen_seq :: "(nat \<Rightarrow> interval_t) \<Rightarrow> nat \<Rightarrow> interval_t" where
  "widen_seq x 0 = x 0"
| "widen_seq x (Suc i) = widen (widen_seq x i) (x (Suc i))"

definition changes :: "(nat \<Rightarrow> interval_t) \<Rightarrow> nat \<Rightarrow> nat" where
  "changes x n =
     length (filter (\<lambda>i. \<not> interval_eq (widen_seq x (Suc i)) (widen_seq x i)) [0..<n])"

text \<open>How far an interval is on the way from bottom to top: a number from 0 to 3.\<close>

definition widen_rank :: "interval_t \<Rightarrow> nat" where
  "widen_rank y =
     (if is_bottom y then 0
      else 1 + (if i_lb y = minus_infinity then 1 else 0)
             + (if i_ub y = plus_infinity then 1 else 0))"

text \<open>An ascending chain to try the widening sequence on: \<open>[0, 0], [0, 1], [0, 2], ...\<close>\<close>

definition growing_chain :: "nat \<Rightarrow> interval_t" where
  "growing_chain i = mk_interval (bound_of 0) (bound_of (int i))"

text \<open>
  Modelled from the spec: the bodies of \<^verbatim>\<open>SRem\<close>, \<^verbatim>\<open>URem\<close>, \<^verbatim>\<open>And\<close>, \<^verbatim>\<open>Or\<close>, \<^verbatim>\<open>Xor\<close>,
  \<^verbatim>\<open>Shl\<close>, \<^verbatim>\<open>LShr\<close> and \<^verbatim>\<open>AShr\<close>, which interval.hpp only declares (interval.cpp is not
  among the sources). The spec: "result is top unless both operands are singletons, in which
  case the exact value is returned". The operation on numbers, \<open>f\<close>, is a parameter.
\<close>

definition singleton_or_top ::
  "(int \<Rightarrow> int \<Rightarrow> int) \<Rightarrow> interval_t \<Rightarrow> interval_t \<Rightarrow> interval_t" where
  "singleton_or_top f a x =
     (case singleton a of
        None \<Rightarrow> top_interval
      | Some m \<Rightarrow> (case singleton x of
                     None \<Rightarrow> top_interval
                   | Some n \<Rightarrow> interval_of_number (f m n)))"

section \<open>Basic blocks (class \<^verbatim>\<open>basic_block\<close>, cfg.hpp)\<close>

text \<open>
  A block has a label, its statements (\<^verbatim>\<open>m_ts\<close>) and the labels of its predecessors and
  successors (\<^verbatim>\<open>m_prev\<close>, \<^verbatim>\<open>m_next\<close>), three \<^verbatim>\<open>std::vector\<close>s. The type of labels and the
  type of statements are parameters.
\<close>

record ('l, 's) basic_block =
  m_label :: 'l
  m_ts :: "'s list"
  m_prev :: "'l list"
  m_next :: "'l list"

text \<open>The constructor \<^verbatim>\<open>basic_block(const label_t& _label)\<close>.\<close>

definition new_block :: "'l \<Rightarrow> ('l, 's) basic_block" where
  "new_block l = \<lparr>m_label = l, m_ts = [], m_prev = [], m_next = []\<rparr>"

text \<open>
  \<^verbatim>\<open>insert_adjacent\<close> pushes \<open>e\<close> at the back unless \<^verbatim>\<open>std::find\<close> finds it;
  \<^verbatim>\<open>remove_adjacent\<close> erases every occurrence of \<open>e\<close> (\<^verbatim>\<open>std::remove\<close>, then \<^verbatim>\<open>erase\<close>).
\<close>

definition insert_adjacent :: "'l list \<Rightarrow> 'l \<Rightarrow> 'l list" where
  "insert_adjacent c e = (if e \<notin> set c then c @ [e] else c)"

definition remove_adjacent :: "'l list \<Rightarrow> 'l \<Rightarrow> 'l list" where
  "remove_adjacent c e = (if e \<in> set c then removeAll e c else c)"

text \<open>
  \<^verbatim>\<open>move_back\<close> on two different blocks: \<^verbatim>\<open>std::move(first, last, std::back_inserter(m_ts))\<close>
  move-assigns each statement of \<open>other\<close> to the back of this block. The algorithm erases
  nothing: \<open>other\<close> keeps as many statements as it had, each in its moved-from state. The
  state a statement is left in by a move is the parameter \<open>mv\<close>. The result is the pair of
  both blocks after the call.
\<close>

definition move_back ::
  "('s \<Rightarrow> 's) \<Rightarrow> ('l, 's) basic_block \<Rightarrow> ('l, 's) basic_block \<Rightarrow>
   ('l, 's) basic_block \<times> ('l, 's) basic_block" where
  "move_back mv this other =
     (this\<lparr>m_ts := m_ts this @ m_ts other\<rparr>, other\<lparr>m_ts := map mv (m_ts other)\<rparr>)"

section \<open>Edges between the blocks of a graph\<close>

text \<open>
  The blocks of a graph live in \<^verbatim>\<open>std::unordered_map<label_t, basic_block_t> m_blocks\<close>. The
  map is the store of the block objects, and a reference \<^verbatim>\<open>basic_block_t&\<close> is the key of
  the block in the store, so that \<^verbatim>\<open>a >> a\<close> updates one object twice, as the code does.
  There is no reference to a block that is not in the store, and the model leaves the store
  as it is for such a key.
\<close>

type_synonym ('l, 's) block_store = "'l \<rightharpoonup> ('l, 's) basic_block"

text \<open>\<^verbatim>\<open>operator>>\<close>: \<open>connect a b\<close> is \<^verbatim>\<open>a >> b\<close>, the edge from \<open>a\<close> to \<open>b\<close>.\<close>

definition connect :: "'l \<Rightarrow> 'l \<Rightarrow> ('l, 's) block_store \<Rightarrow> ('l, 's) block_store" where
  "connect a b g =
     (case g a of
        None \<Rightarrow> g
      | Some this \<Rightarrow>
          (case g b of
             None \<Rightarrow> g
           | Some other \<Rightarrow>
               let g1 = g(a \<mapsto> this\<lparr>m_next := insert_adjacent (m_next this) (m_label other)\<rparr>)
               in (case g1 b of
                     None \<Rightarrow> g1
                   | Some other1 \<Rightarrow>
                       g1(b \<mapsto> other1\<lparr>m_prev :=
                                   insert_adjacent (m_prev other1) (m_label this)\<rparr>))))"

text \<open>\<^verbatim>\<open>operator-=\<close>: \<open>disconnect a b\<close> is \<^verbatim>\<open>a -= b\<close>.\<close>

definition disconnect :: "'l \<Rightarrow> 'l \<Rightarrow> ('l, 's) block_store \<Rightarrow> ('l, 's) block_store" where
  "disconnect a b g =
     (case g a of
        None \<Rightarrow> g
      | Some this \<Rightarrow>
          (case g b of
             None \<Rightarrow> g
           | Some other \<Rightarrow>
               let g1 = g(a \<mapsto> this\<lparr>m_next := remove_adjacent (m_next this) (m_label other)\<rparr>)
               in (case g1 b of
                     None \<Rightarrow> g1
                   | Some other1 \<Rightarrow>
                       g1(b \<mapsto> other1\<lparr>m_prev :=
                                   remove_adjacent (m_prev other1) (m_label this)\<rparr>))))"

text \<open>A sequence of calls of the two operators.\<close>

datatype 'l edge_op = Connect 'l 'l | Disconnect 'l 'l

fun apply_edge_op :: "'l edge_op \<Rightarrow> ('l, 's) block_store \<Rightarrow> ('l, 's) block_store" where
  "apply_edge_op (Connect a b) g = connect a b g"
| "apply_edge_op (Disconnect a b) g = disconnect a b g"

fun apply_edge_ops :: "'l edge_op list \<Rightarrow> ('l, 's) block_store \<Rightarrow> ('l, 's) block_store" where
  "apply_edge_ops [] g = g"
| "apply_edge_ops (x # xs) g = apply_edge_ops xs (apply_edge_op x g)"

text \<open>
  The properties of a store: each block is stored under its own label (\<^verbatim>\<open>cfg_t\<close> emplaces
  \<^verbatim>\<open>(label, label)\<close>), the successor and predecessor lists mirror each other, and no list
  holds a label twice.
\<close>

definition labelled :: "('l, 's) block_store \<Rightarrow> bool" where
  "labelled g = (\<forall>a ba. g a = Some ba \<longrightarrow> m_label ba = a)"

definition edge_mirror :: "('l, 's) block_store \<Rightarrow> bool" where
  "edge_mirror g =
     (\<forall>a b ba bb. g a = Some ba \<and> g b = Some bb \<longrightarrow>
        (b \<in> set (m_next ba)) = (a \<in> set (m_prev bb)))"

definition no_duplicates :: "('l, 's) block_store \<Rightarrow> bool" where
  "no_duplicates g =
     (\<forall>a ba. g a = Some ba \<longrightarrow> distinct (m_next ba) \<and> distinct (m_prev ba))"

text \<open>A store of two new blocks, and a sequence of operator calls to run on it.\<close>

definition two_blocks :: "(nat, string) block_store" where
  "two_blocks = [0 \<mapsto> new_block 0, 1 \<mapsto> new_block 1]"

definition some_edge_ops :: "nat edge_op list" where
  "some_edge_ops = [Connect 0 1, Connect 0 1, Connect 1 1, Connect 0 0, Disconnect 0 0]"

section \<open>Control-flow graphs (class \<^verbatim>\<open>cfg_t\<close>, cfg.hpp)\<close>

record ('l, 's) cfg_t =
  m_entry :: 'l
  m_exit :: "'l option"
  m_blocks :: "('l, 's) block_store"

text \<open>
  The constructors \<^verbatim>\<open>cfg_t(entry)\<close> and \<^verbatim>\<open>cfg_t(entry, exit)\<close>; \<^verbatim>\<open>emplace\<close> inserts nothing
  when the key is there already.
\<close>

definition cfg_entry :: "'l \<Rightarrow> ('l, 's) cfg_t" where
  "cfg_entry entry =
     \<lparr>m_entry = entry, m_exit = None, m_blocks = [entry \<mapsto> new_block entry]\<rparr>"

definition cfg_entry_exit :: "'l \<Rightarrow> 'l \<Rightarrow> ('l, 's) cfg_t" where
  "cfg_entry_exit entry exit =
     \<lparr>m_entry = entry, m_exit = Some exit,
      m_blocks = (if exit = entry then [entry \<mapsto> new_block entry]
                  else [entry \<mapsto> new_block entry, exit \<mapsto> new_block exit])\<rparr>"

definition has_exit :: "('l, 's) cfg_t \<Rightarrow> bool" where
  "has_exit g = (m_exit g \<noteq> None)"

text \<open>\<^verbatim>\<open>exit()\<close> ends in \<^verbatim>\<open>CRAB_ERROR("cfg_t does not have an exit block")\<close>.\<close>

definition exit_label :: "('l, 's) cfg_t \<Rightarrow> error + 'l" where
  "exit_label g = (case m_exit g of Some l \<Rightarrow> Inr l | None \<Rightarrow> Inl NoExit)"

definition set_exit :: "'l \<Rightarrow> ('l, 's) cfg_t \<Rightarrow> ('l, 's) cfg_t" where
  "set_exit l g = g\<lparr>m_exit := Some l\<rparr>"

definition entry :: "('l, 's) cfg_t \<Rightarrow> 'l" where
  "entry g = m_entry g"

text \<open>\<^verbatim>\<open>get_node\<close> ends in \<^verbatim>\<open>CRAB_ERROR("Basic block ", _label, " not found in the CFG")\<close>.\<close>

definition get_node :: "('l, 's) cfg_t \<Rightarrow> 'l \<Rightarrow> error + ('l, 's) basic_block" where
  "get_node g l = (case m_blocks g l of None \<Rightarrow> Inl UnknownLabel | Some b \<Rightarrow> Inr b)"

definition next_nodes :: "('l, 's) cfg_t \<Rightarrow> 'l \<Rightarrow> error + 'l list" where
  "next_nodes g l = (case get_node g l of Inl e \<Rightarrow> Inl e | Inr b \<Rightarrow> Inr (m_next b))"

definition prev_nodes :: "('l, 's) cfg_t \<Rightarrow> 'l \<Rightarrow> error + 'l list" where
  "prev_nodes g l = (case get_node g l of Inl e \<Rightarrow> Inl e | Inr b \<Rightarrow> Inr (m_prev b))"

section \<open>The reversed view (classes \<^verbatim>\<open>basic_block_rev\<close> and \<^verbatim>\<open>cfg_rev_t\<close>)\<close>

text \<open>
  A \<^verbatim>\<open>basic_block_rev\<close> holds a reference \<^verbatim>\<open>_bb\<close> to a block: its statements are iterated
  from \<^verbatim>\<open>rbegin\<close> to \<^verbatim>\<open>rend\<close>, and its successors are the predecessors of the block.
\<close>

datatype ('l, 's) basic_block_rev = Basic_block_rev (bb: "('l, 's) basic_block")

definition rev_label :: "('l, 's) basic_block_rev \<Rightarrow> 'l" where
  "rev_label r = m_label (bb r)"

definition rev_statements :: "('l, 's) basic_block_rev \<Rightarrow> 's list" where
  "rev_statements r = rev (m_ts (bb r))"

definition rev_next_blocks :: "('l, 's) basic_block_rev \<Rightarrow> 'l list" where
  "rev_next_blocks r = m_prev (bb r)"

definition rev_prev_blocks :: "('l, 's) basic_block_rev \<Rightarrow> 'l list" where
  "rev_prev_blocks r = m_next (bb r)"

text \<open>
  A \<^verbatim>\<open>cfg_rev_t\<close> holds a reference \<^verbatim>\<open>_cfg\<close> to the graph and the map \<^verbatim>\<open>_rev_bbs\<close> of the
  block views. Its constructor fills the map from the blocks of the graph and checks
  nothing.
\<close>

record ('l, 's) cfg_rev_t =
  r_cfg :: "('l, 's) cfg_t"
  r_rev_bbs :: "'l \<rightharpoonup> ('l, 's) basic_block_rev"

definition cfg_rev :: "('l, 's) cfg_t \<Rightarrow> ('l, 's) cfg_rev_t" where
  "cfg_rev g = \<lparr>r_cfg = g, r_rev_bbs = (\<lambda>l. map_option Basic_block_rev (m_blocks g l))\<rparr>"

text \<open>\<^verbatim>\<open>entry()\<close> of the view is the one member with \<^verbatim>\<open>CRAB_ERROR("Entry not found!")\<close>.\<close>

definition rev_entry :: "('l, 's) cfg_rev_t \<Rightarrow> error + 'l" where
  "rev_entry v = (if \<not> has_exit (r_cfg v) then Inl NoExit else exit_label (r_cfg v))"

definition rev_exit :: "('l, 's) cfg_rev_t \<Rightarrow> 'l" where
  "rev_exit v = entry (r_cfg v)"

definition rev_has_exit :: "('l, 's) cfg_rev_t \<Rightarrow> bool" where
  "rev_has_exit v = True"

definition rev_next_nodes :: "('l, 's) cfg_rev_t \<Rightarrow> 'l \<Rightarrow> error + 'l list" where
  "rev_next_nodes v l = prev_nodes (r_cfg v) l"

definition rev_prev_nodes :: "('l, 's) cfg_rev_t \<Rightarrow> 'l \<Rightarrow> error + 'l list" where
  "rev_prev_nodes v l = next_nodes (r_cfg v) l"

definition rev_get_node :: "('l, 's) cfg_rev_t \<Rightarrow> 'l \<Rightarrow> error + ('l, 's) basic_block_rev" where
  "rev_get_node v l = (case r_rev_bbs v l of None \<Rightarrow> Inl UnknownLabel | Some r \<Rightarrow> Inr r)"

text \<open>\<^verbatim>\<open>void simplify() {}\<close>.\<close>

definition rev_simplify :: "('l, 's) cfg_rev_t \<Rightarrow> ('l, 's) cfg_rev_t" where
  "rev_simplify v = v"

text \<open>A graph built with \<^verbatim>\<open>cfg_t(entry)\<close>, without exit, and a graph with an edge and an exit.\<close>

definition no_exit_cfg :: "(string, string) cfg_t" where
  "no_exit_cfg = cfg_entry ''entry''"

definition entry_exit_cfg :: "(string, string) cfg_t" where
  "entry_exit_cfg =
     (cfg_entry_exit ''entry'' ''exit'')
       \<lparr>m_blocks := connect ''entry'' ''exit'' (m_blocks (cfg_entry_exit ''entry'' ''exit''))\<rparr>"

text \<open>
  The concretization of an interval, \<open>\<gamma>(i) = {n. i.lb \<le> n \<le> i.ub}\<close>, with the order of
  bounds of the code.
\<close>

definition gamma :: "interval_t \<Rightarrow> int set" where
  "gamma i = {k. bound_le (i_lb i) (bound_of k) \<and> bound_le (bound_of k) (i_ub i)}"

text \<open>
  Modelled from the spec: \<^verbatim>\<open>interval_t::operator/\<close>, which interval.hpp only declares
  (interval.cpp is not among the sources). The spec, section 4.2: "standard interval
  arithmetic; \<open>/\<close> must handle intervals spanning zero by splitting and rejoining, yielding top
  on division by a zero-containing divisor when a more precise answer is not derivable". The
  quotient of two bounds in it is the one of section 4.1: "division by zero fails with
  DivisionByZero. Finite/finite follows truncated-toward-zero integer division consistent
  with the underlying big-integer library. Finite/oo = 0 (with sign). oo/finite = oo with
  sign propagated. oo/oo = oo with sign = XOR of operand signs."

  \<open>bound_div_spec\<close> is that quotient of bounds. \<open>div_corners\<close> is the standard quotient of two
  intervals, from the four quotients of their bounds. \<open>div_split_dividend\<close> splits a dividend
  that spans zero into its negative part, its positive part and zero, and joins the three
  quotients. \<open>interval_div\<close> splits a divisor that spans zero into its negative and its
  positive part and joins the two quotients; the divisor \<open>[0, 0]\<close> has neither part, and the
  quotient is top.
\<close>

definition bound_div_spec :: "bound_t \<Rightarrow> bound_t \<Rightarrow> error + bound_t" where
  "bound_div_spec a x =
     (if is_finite x \<and> b_n x = 0 then Inl DivisionByZero
      else if is_finite a \<and> is_finite x then Inr (bound_of (number_div (b_n a) (b_n x)))
      else if is_finite a then Inr (bound_of 0)
      else if (0 < b_n a) = (0 < b_n x) then Inr plus_infinity
      else Inr minus_infinity)"

definition div_corners :: "interval_t \<Rightarrow> interval_t \<Rightarrow> error + interval_t" where
  "div_corners a x =
     (if is_bottom a \<or> is_bottom x then Inr bottom
      else case bound_div_spec (i_lb a) (i_lb x) of Inl e \<Rightarrow> Inl e | Inr ll \<Rightarrow>
          (case bound_div_spec (i_lb a) (i_ub x) of Inl e \<Rightarrow> Inl e | Inr lu \<Rightarrow>
          (case bound_div_spec (i_ub a) (i_lb x) of Inl e \<Rightarrow> Inl e | Inr ul \<Rightarrow>
          (case bound_div_spec (i_ub a) (i_ub x) of Inl e \<Rightarrow> Inl e | Inr uu \<Rightarrow>
             Inr (mk_interval (bound_min4 ll lu ul uu) (bound_max4 ll lu ul uu))))))"

definition join_results :: "error + interval_t \<Rightarrow> error + interval_t \<Rightarrow> error + interval_t" where
  "join_results r s =
     (case r of Inl e \<Rightarrow> Inl e
      | Inr a \<Rightarrow> (case s of Inl e \<Rightarrow> Inl e | Inr x \<Rightarrow> Inr (join a x)))"

definition div_split_dividend :: "interval_t \<Rightarrow> interval_t \<Rightarrow> error + interval_t" where
  "div_split_dividend a x =
     (if contains a 0 then
        join_results
          (join_results (div_corners (mk_interval (i_lb a) (bound_of (-1))) x)
                        (div_corners (mk_interval (bound_of 1) (i_ub a)) x))
          (Inr (interval_of_number 0))
      else div_corners a x)"

definition interval_div :: "interval_t \<Rightarrow> interval_t \<Rightarrow> error + interval_t" where
  "interval_div a x =
     (if is_bottom a \<or> is_bottom x then Inr bottom
      else if contains x 0 then
        (let l = mk_interval (i_lb x) (bound_of (-1));
             u = mk_interval (bound_of 1) (i_ub x)
         in if is_bottom l \<and> is_bottom u then Inr top_interval
            else join_results (div_split_dividend a l) (div_split_dividend a u))
      else div_split_dividend a x)"

section \<open>The merge pass of \<^verbatim>\<open>simplify()\<close>\<close>

text \<open>Sequencing of calls that may stop at \<^verbatim>\<open>CRAB_ERROR\<close>.\<close>

definition bind_err :: "error + 'a \<Rightarrow> ('a \<Rightarrow> error + 'b) \<Rightarrow> error + 'b" where
  "bind_err r f = (case r of Inl e \<Rightarrow> Inl e | Inr v \<Rightarrow> f v)"

text \<open>The helpers \<^verbatim>\<open>has_one_child\<close> and \<^verbatim>\<open>has_one_parent\<close>.\<close>

definition has_one_child :: "('l, 's) cfg_t \<Rightarrow> 'l \<Rightarrow> error + bool" where
  "has_one_child g b = bind_err (next_nodes g b) (\<lambda>rng. Inr (length rng = 1))"

definition has_one_parent :: "('l, 's) cfg_t \<Rightarrow> 'l \<Rightarrow> error + bool" where
  "has_one_parent g b = bind_err (prev_nodes g b) (\<lambda>rng. Inr (length rng = 1))"

text \<open>
  \<^verbatim>\<open>get_child\<close> and \<^verbatim>\<open>get_parent\<close>: \<^verbatim>\<open>assert(has_one_child(b))\<close>, then a reference to the
  block named first in the successor or predecessor list. The result is the key of that
  block, once \<^verbatim>\<open>get_node\<close> has found it.
\<close>

definition get_child :: "('l, 's) cfg_t \<Rightarrow> 'l \<Rightarrow> error + 'l" where
  "get_child g b =
     bind_err (has_one_child g b) (\<lambda>one_child.
       if \<not> one_child then Inl AssertionFailed
       else bind_err (next_nodes g b) (\<lambda>rng.
              bind_err (get_node g (hd rng)) (\<lambda>_. Inr (hd rng))))"

definition get_parent :: "('l, 's) cfg_t \<Rightarrow> 'l \<Rightarrow> error + 'l" where
  "get_parent g b =
     bind_err (has_one_parent g b) (\<lambda>one_parent.
       if \<not> one_parent then Inl AssertionFailed
       else bind_err (prev_nodes g b) (\<lambda>rng.
              bind_err (get_node g (hd rng)) (\<lambda>_. Inr (hd rng))))"

text \<open>
  \<^verbatim>\<open>parent.move_back(cur)\<close> on the blocks stored under the keys \<open>p\<close> and \<open>c\<close>. When both
  are one block, the statements are moved to the back of their own list.
\<close>

definition move_back_at ::
  "('s \<Rightarrow> 's) \<Rightarrow> 'l \<Rightarrow> 'l \<Rightarrow> ('l, 's) block_store \<Rightarrow> ('l, 's) block_store" where
  "move_back_at mv p c st =
     (case st p of
        None \<Rightarrow> st
      | Some this \<Rightarrow>
          (case st c of
             None \<Rightarrow> st
           | Some other \<Rightarrow>
               if p = c then st(p \<mapsto> this\<lparr>m_ts := map mv (m_ts this) @ m_ts this\<rparr>)
               else st(p \<mapsto> fst (move_back mv this other), c \<mapsto> snd (move_back mv this other))))"

text \<open>
  \<^verbatim>\<open>parent >> child\<close> after \<^verbatim>\<open>remove(curId)\<close>: the two references were taken before the
  removal, and one that pointed to a block that is gone dangles.
\<close>

definition connect_refs :: "'l \<Rightarrow> 'l \<Rightarrow> ('l, 's) cfg_t \<Rightarrow> error + ('l, 's) cfg_t" where
  "connect_refs p c g =
     (if m_blocks g p = None \<or> m_blocks g c = None then Inl DanglingReference
      else Inr (g\<lparr>m_blocks := connect p c (m_blocks g)\<rparr>))"

text \<open>The loop \<^verbatim>\<open>for (auto n : ...) f(n)\<close> over a list of labels, with the state passed on.\<close>

fun for_each_label :: "('l \<Rightarrow> 'a \<Rightarrow> error + 'a) \<Rightarrow> 'l list \<Rightarrow> 'a \<Rightarrow> error + 'a" where
  "for_each_label f [] s = Inr s"
| "for_each_label f (n # ns) s = bind_err (f n s) (for_each_label f ns)"

text \<open>
  \<^verbatim>\<open>merge_blocks_rec\<close>. The state is the set \<^verbatim>\<open>visited\<close> and the graph. The recursion of the
  code need not be structural, so the model counts the depth of the calls down from a
  number \<open>k\<close> and returns \<open>OutOfFuel\<close> at zero.

  \<^verbatim>\<open>cfg_t::remove\<close> is declared in cfg.hpp and its body is not among the sources (it is in
  cfg.cpp): the pass takes it as the parameter \<open>remove\<close>, from a label and a graph to the graph
  after the call, or an error.

  The loop at the end runs over the successors the block has when the loop starts. During
  the calls of the loop the vector of \<^verbatim>\<open>cur\<close> is written only when a successor of \<^verbatim>\<open>cur\<close> is
  merged into \<^verbatim>\<open>cur\<close>, which needs \<^verbatim>\<open>cur\<close> to have exactly one successor: the vector holds
  one label before and after, and the loop has made its one step.
\<close>

primrec merge_blocks_rec ::
  "nat \<Rightarrow> ('s \<Rightarrow> 's) \<Rightarrow> ('l \<Rightarrow> ('l, 's) cfg_t \<Rightarrow> error + ('l, 's) cfg_t) \<Rightarrow> 'l \<Rightarrow>
   'l set \<times> ('l, 's) cfg_t \<Rightarrow> error + ('l set \<times> ('l, 's) cfg_t)" where
  "merge_blocks_rec 0 mv remove curId s = Inl OutOfFuel"
| "merge_blocks_rec (Suc k) mv remove curId s =
     (if curId \<in> fst s then Inr s
      else
        let visited = insert curId (fst s); g = snd s in
        bind_err (get_node g curId) (\<lambda>cur.
        bind_err (has_one_child g curId) (\<lambda>one_child.
        bind_err (if one_child then has_one_parent g curId else Inr False) (\<lambda>one_parent.
        let rest = for_each_label (merge_blocks_rec k mv remove) (m_next cur) (visited, g) in
        if one_child \<and> one_parent then
          bind_err (get_parent g curId) (\<lambda>parent.
          bind_err (get_child g curId) (\<lambda>child.
          bind_err (get_node g parent) (\<lambda>parent_block.
          bind_err (has_one_child g (m_label parent_block)) (\<lambda>parent_one_child.
          if parent_one_child then
            bind_err (remove curId (g\<lparr>m_blocks := move_back_at mv parent curId (m_blocks g)\<rparr>))
              (\<lambda>g1.
            bind_err (connect_refs parent child g1) (\<lambda>g2.
            bind_err (get_node g2 child) (\<lambda>child_block.
            merge_blocks_rec k mv remove (m_label child_block) (visited - {curId}, g2))))
          else rest))))
        else rest))))"

text \<open>\<^verbatim>\<open>merge_blocks\<close> starts at the entry with nothing visited.\<close>

definition merge_blocks ::
  "nat \<Rightarrow> ('s \<Rightarrow> 's) \<Rightarrow> ('l \<Rightarrow> ('l, 's) cfg_t \<Rightarrow> error + ('l, 's) cfg_t) \<Rightarrow>
   ('l, 's) cfg_t \<Rightarrow> error + ('l, 's) cfg_t" where
  "merge_blocks k mv remove g =
     bind_err (merge_blocks_rec k mv remove (entry g) ({}, g)) (\<lambda>s. Inr (snd s))"

text \<open>
  Graphs to run the pass on, each as built by \<^verbatim>\<open>cfg_t("entry", "exit")\<close>, \<^verbatim>\<open>insert\<close> and
  \<^verbatim>\<open>>>\<close>: \<open>entry \<rightarrow> exit\<close>; \<open>entry \<rightarrow> a\<close>, \<open>a \<rightarrow> b\<close>, \<open>a \<rightarrow> exit\<close>, \<open>b \<rightarrow> exit\<close>; and \<open>entry \<rightarrow> a\<close>,
  \<open>a \<rightarrow> b\<close>, \<open>a \<rightarrow> c\<close>, \<open>b \<rightarrow> exit\<close>, \<open>c \<rightarrow> exit\<close>.
\<close>

definition short_cfg :: "(string, string) cfg_t" where
  "short_cfg =
     \<lparr>m_entry = ''entry'', m_exit = Some ''exit'',
      m_blocks =
        [''entry'' \<mapsto> \<lparr>m_label = ''entry'', m_ts = [''s0''], m_prev = [], m_next = [''exit'']\<rparr>,
         ''exit'' \<mapsto> \<lparr>m_label = ''exit'', m_ts = [''s3''], m_prev = [''entry''], m_next = []\<rparr>]\<rparr>"

definition branch_cfg :: "(string, string) cfg_t" where
  "branch_cfg =
     \<lparr>m_entry = ''entry'', m_exit = Some ''exit'',
      m_blocks =
        [''entry'' \<mapsto> \<lparr>m_label = ''entry'', m_ts = [''s0''], m_prev = [], m_next = [''a'']\<rparr>,
         ''a'' \<mapsto> \<lparr>m_label = ''a'', m_ts = [''s1''], m_prev = [''entry''],
                   m_next = [''b'', ''exit'']\<rparr>,
         ''b'' \<mapsto> \<lparr>m_label = ''b'', m_ts = [''s2''], m_prev = [''a''], m_next = [''exit'']\<rparr>,
         ''exit'' \<mapsto> \<lparr>m_label = ''exit'', m_ts = [''s3''], m_prev = [''a'', ''b''],
                      m_next = []\<rparr>]\<rparr>"

definition diamond_cfg :: "(string, string) cfg_t" where
  "diamond_cfg =
     \<lparr>m_entry = ''entry'', m_exit = Some ''exit'',
      m_blocks =
        [''entry'' \<mapsto> \<lparr>m_label = ''entry'', m_ts = [''s0''], m_prev = [], m_next = [''a'']\<rparr>,
         ''a'' \<mapsto> \<lparr>m_label = ''a'', m_ts = [''s1''], m_prev = [''entry''],
                   m_next = [''b'', ''c'']\<rparr>,
         ''b'' \<mapsto> \<lparr>m_label = ''b'', m_ts = [''s2''], m_prev = [''a''], m_next = [''exit'']\<rparr>,
         ''c'' \<mapsto> \<lparr>m_label = ''c'', m_ts = [''s4''], m_prev = [''a''], m_next = [''exit'']\<rparr>,
         ''exit'' \<mapsto> \<lparr>m_label = ''exit'', m_ts = [''s3''], m_prev = [''b'', ''c''],
                      m_next = []\<rparr>]\<rparr>"


section \<open>Facts about bounds\<close>

lemma bound_inv_cases:
  assumes "bound_inv b"
  obtains (fin) k where "b = bound_of k"
        | (pinf) "b = plus_infinity"
        | (minf) "b = minus_infinity"
proof (cases "b_is_infinite b")
  case False
  then have "b = bound_of (b_n b)" by (simp add: bound_of_def)
  then show ?thesis by (rule fin)
next
  case True
  with assms have "b_n b = 1 \<or> b_n b = -1" by (simp add: bound_inv_def)
  then show ?thesis
  proof
    assume "b_n b = 1"
    with True have "b = plus_infinity" by (simp add: plus_infinity_def mk_bound_def)
    then show ?thesis by (rule pinf)
  next
    assume "b_n b = -1"
    with True have "b = minus_infinity" by (simp add: minus_infinity_def mk_bound_def)
    then show ?thesis by (rule minf)
  qed
qed

lemma bound_inv_simps [simp]:
  "bound_inv (bound_of k)" "bound_inv plus_infinity" "bound_inv minus_infinity"
  "bound_inv (mk_bound inf_flag k)"
  by (simp_all add: bound_inv_def bound_of_def plus_infinity_def minus_infinity_def mk_bound_def)

lemma bound_fields [simp]:
  "b_is_infinite (bound_of k) = False" "b_n (bound_of k) = k"
  "b_is_infinite plus_infinity = True" "b_n plus_infinity = 1"
  "b_is_infinite minus_infinity = True" "b_n minus_infinity = -1"
  by (simp_all add: bound_of_def plus_infinity_def minus_infinity_def mk_bound_def)

lemma bound_distinct [simp]:
  "bound_of k \<noteq> plus_infinity" "bound_of k \<noteq> minus_infinity"
  "plus_infinity \<noteq> bound_of k" "minus_infinity \<noteq> bound_of k"
  "plus_infinity \<noteq> minus_infinity" "minus_infinity \<noteq> plus_infinity"
  "(bound_of k = bound_of l) = (k = l)"
  by (auto simp: bound_of_def plus_infinity_def minus_infinity_def mk_bound_def)

lemma bound_preds [simp]:
  "is_finite (bound_of k)" "\<not> is_infinite (bound_of k)"
  "\<not> is_plus_infinity (bound_of k)" "\<not> is_minus_infinity (bound_of k)"
  "is_infinite plus_infinity" "\<not> is_finite plus_infinity"
  "is_plus_infinity plus_infinity" "\<not> is_minus_infinity plus_infinity"
  "is_infinite minus_infinity" "\<not> is_finite minus_infinity"
  "is_minus_infinity minus_infinity" "\<not> is_plus_infinity minus_infinity"
  by (simp_all add: is_finite_def is_infinite_def is_plus_infinity_def is_minus_infinity_def)

lemma mk_bound_simps [simp]:
  "mk_bound False k = bound_of k"
  "0 < k \<Longrightarrow> mk_bound True k = plus_infinity"
  "k \<le> 0 \<Longrightarrow> mk_bound True k = minus_infinity"
  by (simp_all add: mk_bound_def bound_of_def plus_infinity_def minus_infinity_def)

lemma bound_neg_simps [simp]:
  "bound_neg (bound_of k) = bound_of (- k)"
  "bound_neg plus_infinity = minus_infinity"
  "bound_neg minus_infinity = plus_infinity"
  by (simp_all add: bound_neg_def)

lemma bound_add_simps [simp]:
  "bound_add (bound_of k) (bound_of l) = Inr (bound_of (k + l))"
  "bound_add (bound_of k) plus_infinity = Inr plus_infinity"
  "bound_add (bound_of k) minus_infinity = Inr minus_infinity"
  "bound_add plus_infinity (bound_of l) = Inr plus_infinity"
  "bound_add minus_infinity (bound_of l) = Inr minus_infinity"
  "bound_add plus_infinity plus_infinity = Inr plus_infinity"
  "bound_add minus_infinity minus_infinity = Inr minus_infinity"
  "bound_add plus_infinity minus_infinity = Inl UndefinedArithmetic"
  "bound_add minus_infinity plus_infinity = Inl UndefinedArithmetic"
  by (simp_all add: bound_add_def)

lemma bound_div_simps [simp]:
  "bound_div a (bound_of 0) = Inl DivisionByZero"
  "l \<noteq> 0 \<Longrightarrow> bound_div (bound_of k) (bound_of l) = Inr (bound_of (number_div k l))"
  "0 < k \<Longrightarrow> bound_div (bound_of k) plus_infinity = Inr plus_infinity"
  "0 < k \<Longrightarrow> bound_div (bound_of k) minus_infinity = Inr minus_infinity"
  "bound_div (bound_of 0) plus_infinity = Inr (bound_of 0)"
  "bound_div (bound_of 0) minus_infinity = Inr (bound_of 0)"
  "k < 0 \<Longrightarrow> bound_div (bound_of k) plus_infinity = Inr minus_infinity"
  "k < 0 \<Longrightarrow> bound_div (bound_of k) minus_infinity = Inr plus_infinity"
  "0 < l \<Longrightarrow> bound_div plus_infinity (bound_of l) = Inr plus_infinity"
  "0 < l \<Longrightarrow> bound_div minus_infinity (bound_of l) = Inr minus_infinity"
  "l < 0 \<Longrightarrow> bound_div plus_infinity (bound_of l) = Inr minus_infinity"
  "l < 0 \<Longrightarrow> bound_div minus_infinity (bound_of l) = Inr plus_infinity"
  "bound_div plus_infinity plus_infinity = Inr plus_infinity"
  "bound_div minus_infinity minus_infinity = Inr plus_infinity"
  "bound_div plus_infinity minus_infinity = Inr minus_infinity"
  "bound_div minus_infinity plus_infinity = Inr minus_infinity"
  by (simp_all add: bound_div_def)

lemma bound_div_fin_fin:
  "bound_div (bound_of k) (bound_of l) =
     (if l = 0 then Inl DivisionByZero else Inr (bound_of (number_div k l)))"
  by (simp add: bound_div_def)

lemma bound_div_inf_fin:
  "bound_div plus_infinity (bound_of l) =
     (if l = 0 then Inl DivisionByZero
      else if 0 < l then Inr plus_infinity else Inr minus_infinity)"
  "bound_div minus_infinity (bound_of l) =
     (if l = 0 then Inl DivisionByZero
      else if 0 < l then Inr minus_infinity else Inr plus_infinity)"
  by (simp_all add: bound_div_def)

section \<open>Facts about the order of bounds\<close>

lemma bound_le_simps [simp]:
  "bound_le (bound_of k) (bound_of l) = (k \<le> l)"
  "bound_le (bound_of k) plus_infinity"
  "\<not> bound_le (bound_of k) minus_infinity"
  "\<not> bound_le plus_infinity (bound_of k)"
  "bound_le minus_infinity (bound_of k)"
  "bound_le plus_infinity plus_infinity"
  "bound_le minus_infinity minus_infinity"
  "bound_le minus_infinity plus_infinity"
  "\<not> bound_le plus_infinity minus_infinity"
  by (simp_all add: bound_le_def)

lemma bound_ge_simps [simp]:
  "bound_ge (bound_of k) (bound_of l) = (l \<le> k)"
  "\<not> bound_ge (bound_of k) plus_infinity"
  "bound_ge (bound_of k) minus_infinity"
  "bound_ge plus_infinity (bound_of k)"
  "\<not> bound_ge minus_infinity (bound_of k)"
  "bound_ge plus_infinity plus_infinity"
  "bound_ge minus_infinity minus_infinity"
  "\<not> bound_ge minus_infinity plus_infinity"
  "bound_ge plus_infinity minus_infinity"
  by (simp_all add: bound_ge_def)

lemma bound_eq_iff: "bound_eq a b = (a = b)"
  by (auto simp: bound_eq_def)

lemma bound_ge_le: "bound_inv a \<Longrightarrow> bound_inv b \<Longrightarrow> bound_ge a b = bound_le b a"
  by (cases a rule: bound_inv_cases; cases b rule: bound_inv_cases) simp_all

lemma bound_le_refl [simp]: "bound_le a a"
  by (simp add: bound_le_def)


lemma bound_le_trans:
  "bound_inv a \<Longrightarrow> bound_inv b \<Longrightarrow> bound_inv c \<Longrightarrow>
   bound_le a b \<Longrightarrow> bound_le b c \<Longrightarrow> bound_le a c"
  by (cases a rule: bound_inv_cases; cases b rule: bound_inv_cases;
      cases c rule: bound_inv_cases) simp_all

lemma bound_le_antisym:
  "bound_inv a \<Longrightarrow> bound_inv b \<Longrightarrow> bound_le a b \<Longrightarrow> bound_le b a \<Longrightarrow> a = b"
  by (cases a rule: bound_inv_cases; cases b rule: bound_inv_cases) simp_all

lemma bound_lt_iff: "bound_inv a \<Longrightarrow> bound_inv b \<Longrightarrow> bound_lt a b = (\<not> bound_le b a)"
  by (simp add: bound_lt_def bound_ge_le)

lemma bound_le_minus_infinity [simp]: "bound_inv a \<Longrightarrow> bound_le minus_infinity a"
  by (cases a rule: bound_inv_cases) simp_all

lemma bound_le_plus_infinity [simp]: "bound_inv a \<Longrightarrow> bound_le a plus_infinity"
  by (cases a rule: bound_inv_cases) simp_all

lemma is_bottom_iff: "is_bottom i = (\<not> bound_le (i_lb i) (i_ub i))"
  by (simp add: is_bottom_def bound_gt_def)

lemma is_bottom_bottom [simp]: "is_bottom bottom"
  by (simp add: is_bottom_iff bottom_def)

lemma mk_interval_le:
  "bound_le l u \<Longrightarrow> mk_interval l u = \<lparr>i_lb = l, i_ub = u\<rparr>"
  by (simp add: mk_interval_def bound_gt_def)

lemma mk_interval_gt: "\<not> bound_le l u \<Longrightarrow> mk_interval l u = bottom"
  by (simp add: mk_interval_def bound_gt_def bottom_def)

lemma top_interval_eq: "top_interval = \<lparr>i_lb = minus_infinity, i_ub = plus_infinity\<rparr>"
  by (simp add: top_interval_def mk_interval_le)

lemma interval_inv_simps [simp]:
  "interval_inv bottom" "interval_inv top_interval" "interval_inv (interval_of_number k)"
  "bound_inv l \<Longrightarrow> bound_inv u \<Longrightarrow> interval_inv (mk_interval l u)"
  "bound_inv l \<Longrightarrow> bound_inv u \<Longrightarrow> interval_inv \<lparr>i_lb = l, i_ub = u\<rparr>"
  by (simp_all add: interval_inv_def bottom_def top_interval_eq interval_of_number_def mk_interval_def)


section \<open>Claims about bounds\<close>

text \<open>
  C9. Bound addition. For all bounds \<open>a\<close> and \<open>b\<close> of the class (an infinite bound carries
  \<open>1\<close> or \<open>-1\<close>), \<open>a + b\<close> fails, with UndefinedArithmetic, if and only if one operand is
  \<open>+oo\<close> and the other is \<open>-oo\<close>. In every other case the sum is defined: finite plus finite
  is the integer sum, finite plus an infinity is that infinity, and two infinities of the
  same sign sum to that infinity.
\<close>

theorem bound_add_contract:
  assumes "bound_inv a" and "bound_inv b"
  shows "((\<exists>e. bound_add a b = Inl e) \<longleftrightarrow>
            (is_plus_infinity a \<and> is_minus_infinity b) \<or>
            (is_minus_infinity a \<and> is_plus_infinity b))
       \<and> (\<forall>e. bound_add a b = Inl e \<longrightarrow> e = UndefinedArithmetic)
       \<and> (is_finite a \<and> is_finite b \<longrightarrow> bound_add a b = Inr (bound_of (b_n a + b_n b)))
       \<and> (is_finite a \<and> is_infinite b \<longrightarrow> bound_add a b = Inr b)
       \<and> (is_infinite a \<and> is_finite b \<longrightarrow> bound_add a b = Inr a)
       \<and> (is_plus_infinity a \<and> is_plus_infinity b \<longrightarrow> bound_add a b = Inr plus_infinity)
       \<and> (is_minus_infinity a \<and> is_minus_infinity b \<longrightarrow> bound_add a b = Inr minus_infinity)"
  using assms(1)
proof (cases a rule: bound_inv_cases)
  case (fin k)
  with assms(2) show ?thesis by (cases b rule: bound_inv_cases) simp_all
next
  case pinf
  with assms(2) show ?thesis by (cases b rule: bound_inv_cases) simp_all
next
  case minf
  with assms(2) show ?thesis by (cases b rule: bound_inv_cases) simp_all
qed

theorem bound_add_contract_witness:
  "bound_add plus_infinity minus_infinity = Inl UndefinedArithmetic
   \<and> bound_add (bound_of 2) (bound_of 3) = Inr (bound_of 5)
   \<and> bound_add (bound_of 2) minus_infinity = Inr minus_infinity
   \<and> bound_add plus_infinity (bound_of 1) = Inr plus_infinity
   \<and> bound_add minus_infinity minus_infinity = Inr minus_infinity"
proof -
  have i: "bound_inv plus_infinity" "bound_inv minus_infinity"
          "bound_inv (bound_of 2)" "bound_inv (bound_of 3)" "bound_inv (bound_of 1)"
    by simp_all
  have "\<exists>e. bound_add plus_infinity minus_infinity = Inl e"
    using bound_add_contract [OF i(1) i(2)] by simp
  then have "bound_add plus_infinity minus_infinity = Inl UndefinedArithmetic"
    using bound_add_contract [OF i(1) i(2)] by blast
  moreover have "bound_add (bound_of 2) (bound_of 3) = Inr (bound_of 5)"
    using bound_add_contract [OF i(3) i(4)] by simp
  moreover have "bound_add (bound_of 2) minus_infinity = Inr minus_infinity"
    using bound_add_contract [OF i(3) i(2)] by simp
  moreover have "bound_add plus_infinity (bound_of 1) = Inr plus_infinity"
    using bound_add_contract [OF i(1) i(5)] by simp
  moreover have "bound_add minus_infinity minus_infinity = Inr minus_infinity"
    using bound_add_contract [OF i(2) i(2)] by simp
  ultimately show ?thesis by simp
qed

text \<open>
  C2. Bound division, as the code has it. For all bounds \<open>a\<close> and \<open>b\<close> of the class,
  \<open>a / b\<close> fails, with DivisionByZero, if and only if \<open>b\<close> is the finite zero; finite by
  finite is the truncated quotient; a finite \<open>a\<close> divided by an infinite \<open>b\<close> is \<open>0\<close> only
  when \<open>a\<close> is \<open>0\<close>, it is \<open>b\<close> when \<open>a\<close> is positive and \<open>-b\<close> when \<open>a\<close> is negative; an
  infinite \<open>a\<close> divided by a finite \<open>b\<close> is \<open>a\<close> when \<open>b\<close> is positive and \<open>-a\<close> when \<open>b\<close> is
  negative; an infinity divided by an infinity is \<open>+oo\<close> when the signs agree and \<open>-oo\<close>
  when they differ.
\<close>

theorem bound_div_contract:
  assumes "bound_inv a" and "bound_inv b"
  shows "((\<exists>e. bound_div a b = Inl e) \<longleftrightarrow> is_finite b \<and> b_n b = 0)
       \<and> (\<forall>e. bound_div a b = Inl e \<longrightarrow> e = DivisionByZero)
       \<and> (is_finite a \<and> is_finite b \<and> b_n b \<noteq> 0 \<longrightarrow>
            bound_div a b = Inr (bound_of (number_div (b_n a) (b_n b))))
       \<and> (is_finite a \<and> is_infinite b \<longrightarrow>
            bound_div a b =
              Inr (if b_n a > 0 then b else if b_n a = 0 then bound_of 0 else bound_neg b))
       \<and> (is_infinite a \<and> is_finite b \<and> b_n b \<noteq> 0 \<longrightarrow>
            bound_div a b = Inr (if b_n b > 0 then a else bound_neg a))
       \<and> (is_infinite a \<and> is_infinite b \<longrightarrow>
            bound_div a b =
              Inr (if is_plus_infinity a = is_plus_infinity b then plus_infinity
                   else minus_infinity))"
  using assms(1)
proof (cases a rule: bound_inv_cases)
  case (fin k)
  with assms(2) show ?thesis
    by (cases b rule: bound_inv_cases; cases "k < 0"; cases "k = 0")
       (simp_all add: bound_div_fin_fin)
next
  case pinf
  with assms(2) show ?thesis
    by (cases b rule: bound_inv_cases) (simp_all add: bound_div_inf_fin)
next
  case minf
  with assms(2) show ?thesis
    by (cases b rule: bound_inv_cases) (simp_all add: bound_div_inf_fin)
qed

theorem bound_div_contract_witness:
  "bound_div (bound_of 7) (bound_of 0) = Inl DivisionByZero
   \<and> bound_div (bound_of (-7)) (bound_of 2) = Inr (bound_of (-3))
   \<and> bound_div (bound_of (-3)) plus_infinity = Inr minus_infinity
   \<and> bound_div (bound_of 0) minus_infinity = Inr (bound_of 0)
   \<and> bound_div minus_infinity (bound_of (-2)) = Inr plus_infinity
   \<and> bound_div plus_infinity minus_infinity = Inr minus_infinity"
proof -
  have i: "bound_inv plus_infinity" "bound_inv minus_infinity" "bound_inv (bound_of 7)"
          "bound_inv (bound_of 0)" "bound_inv (bound_of (-7))" "bound_inv (bound_of 2)"
          "bound_inv (bound_of (-3))" "bound_inv (bound_of (-2))"
    by simp_all
  have "\<exists>e. bound_div (bound_of 7) (bound_of 0) = Inl e"
    using bound_div_contract [OF i(3) i(4)] by simp
  then have "bound_div (bound_of 7) (bound_of 0) = Inl DivisionByZero"
    using bound_div_contract [OF i(3) i(4)] by blast
  moreover have "bound_div (bound_of (-7)) (bound_of 2) = Inr (bound_of (-3))"
    using bound_div_contract [OF i(5) i(6)] by (simp add: number_div_def)
  moreover have "bound_div (bound_of (-3)) plus_infinity = Inr minus_infinity"
    using bound_div_contract [OF i(7) i(1)] by simp
  moreover have "bound_div (bound_of 0) minus_infinity = Inr (bound_of 0)"
    using bound_div_contract [OF i(4) i(2)] by simp
  moreover have "bound_div minus_infinity (bound_of (-2)) = Inr plus_infinity"
    using bound_div_contract [OF i(2) i(8)] by simp
  moreover have "bound_div plus_infinity minus_infinity = Inr minus_infinity"
    using bound_div_contract [OF i(2) i(1)] bound_div_contract [OF i(1) i(2)] by simp
  ultimately show ?thesis by simp
qed

text \<open>
  The claim as the spec words it, "a finite \<open>a\<close> divided by an infinite \<open>b\<close> yields \<open>0\<close>, in
  particular \<open>(-3) / (+oo) = 0\<close>", fails: the code returns \<open>-oo\<close>.
\<close>

theorem bound_div_finite_by_infinite_counterexample:
  "is_finite (bound_of (-3)) \<and> is_infinite plus_infinity
   \<and> bound_div (bound_of (-3)) plus_infinity = Inr minus_infinity
   \<and> bound_div (bound_of (-3)) plus_infinity \<noteq> Inr (bound_of 0)"
  by simp

section \<open>Interval addition and subtraction are defined on proper intervals\<close>

lemma proper_bounds:
  "bound_inv l \<Longrightarrow> bound_inv u \<Longrightarrow> bound_le l u \<Longrightarrow>
   \<not> (is_plus_infinity l \<and> is_plus_infinity u) \<Longrightarrow>
   \<not> (is_minus_infinity l \<and> is_minus_infinity u) \<Longrightarrow>
   l \<noteq> plus_infinity \<and> u \<noteq> minus_infinity"
  by (cases l rule: bound_inv_cases; cases u rule: bound_inv_cases) auto

lemma proper_interval_bounds:
  assumes "interval_inv a" "\<not> is_bottom a" "\<not> is_infinite_singleton a"
  shows "i_lb a \<noteq> plus_infinity \<and> i_ub a \<noteq> minus_infinity"
  using assms proper_bounds [of "i_lb a" "i_ub a"]
  by (simp add: interval_inv_def is_bottom_iff is_infinite_singleton_def)

lemma bound_add_defined_low:
  "bound_inv a \<Longrightarrow> bound_inv b \<Longrightarrow> a \<noteq> plus_infinity \<Longrightarrow> b \<noteq> plus_infinity \<Longrightarrow>
   \<exists>r. bound_add a b = Inr r \<and> bound_inv r \<and> r \<noteq> plus_infinity"
  by (cases a rule: bound_inv_cases; cases b rule: bound_inv_cases) simp_all

lemma bound_add_defined_high:
  "bound_inv a \<Longrightarrow> bound_inv b \<Longrightarrow> a \<noteq> minus_infinity \<Longrightarrow> b \<noteq> minus_infinity \<Longrightarrow>
   \<exists>r. bound_add a b = Inr r \<and> bound_inv r \<and> r \<noteq> minus_infinity"
  by (cases a rule: bound_inv_cases; cases b rule: bound_inv_cases) simp_all

lemma bound_neg_inv [simp]: "bound_inv (bound_neg a)"
  by (simp add: bound_neg_def)

lemma bound_neg_eq_infinity:
  "bound_inv a \<Longrightarrow> (bound_neg a = plus_infinity) = (a = minus_infinity)"
  "bound_inv a \<Longrightarrow> (bound_neg a = minus_infinity) = (a = plus_infinity)"
  by (cases a rule: bound_inv_cases; simp)+

text \<open>
  C10. For all intervals \<open>a\<close> and \<open>b\<close> that are not bottom and are not one of the infinite
  singletons \<open>[+oo, +oo]\<close> and \<open>[-oo, -oo]\<close>, the sum \<open>a + b\<close> and the difference \<open>a - b\<close>
  return an interval: the UndefinedArithmetic branch of bound addition is not reached.
  The infinite singletons are intervals the two-bound constructor builds and does not turn
  into bottom, and on them the error branch is reached, by \<open>[+oo, +oo] + [-oo, -oo]\<close> and by
  \<open>[+oo, +oo] - [+oo, +oo]\<close>.
\<close>

theorem interval_add_sub_defined:
  "(\<forall>a b. interval_inv a \<and> interval_inv b \<and> \<not> is_bottom a \<and> \<not> is_bottom b
          \<and> \<not> is_infinite_singleton a \<and> \<not> is_infinite_singleton b \<longrightarrow>
          (\<exists>r. interval_add a b = Inr r) \<and> (\<exists>r. interval_sub a b = Inr r))
   \<and> interval_inv (mk_interval plus_infinity plus_infinity)
   \<and> interval_inv (mk_interval minus_infinity minus_infinity)
   \<and> \<not> is_bottom (mk_interval plus_infinity plus_infinity)
   \<and> \<not> is_bottom (mk_interval minus_infinity minus_infinity)
   \<and> interval_add (mk_interval plus_infinity plus_infinity)
                   (mk_interval minus_infinity minus_infinity) = Inl UndefinedArithmetic
   \<and> interval_sub (mk_interval plus_infinity plus_infinity)
                   (mk_interval plus_infinity plus_infinity) = Inl UndefinedArithmetic"
proof -
  have defined: "(\<exists>r. interval_add a b = Inr r) \<and> (\<exists>r. interval_sub a b = Inr r)"
    if a: "interval_inv a" "\<not> is_bottom a" "\<not> is_infinite_singleton a"
    and b: "interval_inv b" "\<not> is_bottom b" "\<not> is_infinite_singleton b" for a b
  proof -
    from a(1) b(1) have inv: "bound_inv (i_lb a)" "bound_inv (i_ub a)"
        "bound_inv (i_lb b)" "bound_inv (i_ub b)"
      by (simp_all add: interval_inv_def)
    from proper_interval_bounds [OF a] proper_interval_bounds [OF b]
    have ne: "i_lb a \<noteq> plus_infinity" "i_ub a \<noteq> minus_infinity"
        "i_lb b \<noteq> plus_infinity" "i_ub b \<noteq> minus_infinity"
      by simp_all
    obtain l where l: "bound_add (i_lb a) (i_lb b) = Inr l"
      using bound_add_defined_low [OF inv(1) inv(3) ne(1) ne(3)] by blast
    obtain u where u: "bound_add (i_ub a) (i_ub b) = Inr u"
      using bound_add_defined_high [OF inv(2) inv(4) ne(2) ne(4)] by blast
    have "bound_neg (i_ub b) \<noteq> plus_infinity" "bound_neg (i_lb b) \<noteq> minus_infinity"
      using ne inv by (simp_all add: bound_neg_eq_infinity)
    then obtain l' u' where l': "bound_add (i_lb a) (bound_neg (i_ub b)) = Inr l'"
      and u': "bound_add (i_ub a) (bound_neg (i_lb b)) = Inr u'"
      using bound_add_defined_low [OF inv(1) bound_neg_inv ne(1)]
            bound_add_defined_high [OF inv(2) bound_neg_inv ne(2)] by blast
    show ?thesis
      using l u l' u' a(2) b(2) by (simp add: interval_add_def interval_sub_def bound_sub_def)
  qed
  have pp: "mk_interval plus_infinity plus_infinity =
              \<lparr>i_lb = plus_infinity, i_ub = plus_infinity\<rparr>"
    and mm: "mk_interval minus_infinity minus_infinity =
              \<lparr>i_lb = minus_infinity, i_ub = minus_infinity\<rparr>"
    by (simp_all add: mk_interval_le)
  have "interval_add (mk_interval plus_infinity plus_infinity)
          (mk_interval minus_infinity minus_infinity) = Inl UndefinedArithmetic"
    by (simp add: pp mm interval_add_def is_bottom_iff)
  moreover have "interval_sub (mk_interval plus_infinity plus_infinity)
          (mk_interval plus_infinity plus_infinity) = Inl UndefinedArithmetic"
    by (simp add: pp interval_sub_def bound_sub_def is_bottom_iff)
  moreover have "\<not> is_bottom (mk_interval plus_infinity plus_infinity)"
     "\<not> is_bottom (mk_interval minus_infinity minus_infinity)"
    by (simp_all add: pp mm is_bottom_iff)
  ultimately show ?thesis using defined by simp
qed

theorem interval_add_sub_defined_witness:
  "(\<exists>r. interval_add (mk_interval (bound_of 0) (bound_of 1))
                      (mk_interval minus_infinity plus_infinity) = Inr r)
   \<and> (\<exists>r. interval_sub (mk_interval (bound_of 0) (bound_of 1))
                      (mk_interval minus_infinity plus_infinity) = Inr r)"
proof -
  let ?a = "mk_interval (bound_of 0) (bound_of 1)"
  let ?b = "mk_interval minus_infinity plus_infinity"
  have "interval_inv ?a \<and> interval_inv ?b \<and> \<not> is_bottom ?a \<and> \<not> is_bottom ?b
        \<and> \<not> is_infinite_singleton ?a \<and> \<not> is_infinite_singleton ?b"
    by (simp add: mk_interval_le is_bottom_iff is_infinite_singleton_def)
  then show ?thesis using interval_add_sub_defined by blast
qed

section \<open>Widening\<close>

lemma widen_rank_le_3: "widen_rank y \<le> 3"
  by (simp add: widen_rank_def)

lemma widen_non_bottom:
  assumes "interval_inv a" "interval_inv x" "\<not> is_bottom a" "\<not> is_bottom x"
  shows "widen a x =
           \<lparr>i_lb = (if bound_lt (i_lb x) (i_lb a) then minus_infinity else i_lb a),
            i_ub = (if bound_lt (i_ub a) (i_ub x) then plus_infinity else i_ub a)\<rparr>"
proof -
  from assms(1) have inv: "bound_inv (i_lb a)" "bound_inv (i_ub a)"
    by (simp_all add: interval_inv_def)
  from assms(3) have le: "bound_le (i_lb a) (i_ub a)" by (simp add: is_bottom_iff)
  have "bound_le (if bound_lt (i_lb x) (i_lb a) then minus_infinity else i_lb a)
                 (if bound_lt (i_ub a) (i_ub x) then plus_infinity else i_ub a)"
    using inv le by simp
  then show ?thesis using assms(3,4) by (simp add: widen_def mk_interval_le)
qed

lemma widen_inv:
  "interval_inv a \<Longrightarrow> interval_inv x \<Longrightarrow> interval_inv (widen a x)"
  by (auto simp: widen_def interval_inv_def mk_interval_def)

lemma widen_step:
  assumes "interval_inv a" "interval_inv x"
  shows "widen_rank a \<le> widen_rank (widen a x)
       \<and> (\<not> interval_eq (widen a x) a \<longrightarrow> widen_rank a < widen_rank (widen a x))"
proof (cases "is_bottom a")
  case True
  then show ?thesis by (simp add: widen_def widen_rank_def interval_eq_def)
next
  case na: False
  show ?thesis
  proof (cases "is_bottom x")
    case True
    with na show ?thesis by (simp add: widen_def interval_eq_def bound_eq_iff)
  next
    case False
    from assms(1) have inv: "bound_inv (i_lb a)" "bound_inv (i_ub a)"
      by (simp_all add: interval_inv_def)
    from na have le: "bound_le (i_lb a) (i_ub a)" by (simp add: is_bottom_iff)
    have nb: "\<not> is_bottom (widen a x)"
      using inv le by (simp add: widen_non_bottom [OF assms na False] is_bottom_iff)
    show ?thesis
      using na nb
      by (auto simp: widen_non_bottom [OF assms na False] widen_rank_def interval_eq_def
            bound_eq_iff)
  qed
qed

lemma widen_seq_inv: "\<forall>i. interval_inv (x i) \<Longrightarrow> interval_inv (widen_seq x n)"
  by (induction n) (simp_all add: widen_inv)

lemma changes_Suc:
  "changes x (Suc n) =
     changes x n + (if interval_eq (widen_seq x (Suc n)) (widen_seq x n) then 0 else 1)"
  by (simp add: changes_def)

lemma changes_rank:
  assumes "\<forall>i. interval_inv (x i)"
  shows "changes x n + widen_rank (widen_seq x 0) \<le> widen_rank (widen_seq x n)"
proof (induction n)
  case 0
  show ?case by (simp add: changes_def)
next
  case (Suc n)
  have "interval_inv (widen_seq x n)" "interval_inv (x (Suc n))"
    using assms by (simp_all add: widen_seq_inv)
  from widen_step [OF this] Suc show ?case
    by (auto simp: changes_Suc)
qed

lemma widen_rank_mono:
  assumes "\<forall>i. interval_inv (x i)" "i \<le> j"
  shows "widen_rank (widen_seq x i) \<le> widen_rank (widen_seq x j)"
  using assms(2)
proof (induction j)
  case 0
  then show ?case by simp
next
  case (Suc j)
  have "interval_inv (widen_seq x j)" "interval_inv (x (Suc j))"
    using assms(1) by (simp_all add: widen_seq_inv)
  from widen_step [OF this] have "widen_rank (widen_seq x j) \<le> widen_rank (widen_seq x (Suc j))"
    by simp
  with Suc show ?case by (cases "i = Suc j") auto
qed

lemma widen_seq_stable:
  assumes "\<forall>i. interval_inv (x i)"
  shows "\<exists>N. \<forall>i\<ge>N. interval_eq (widen_seq x (Suc i)) (widen_seq x i)"
proof -
  have "\<exists>N. \<forall>i. widen_rank (widen_seq x i) \<le> widen_rank (widen_seq x N)"
    using ex_has_greatest_nat [of "\<lambda>_. True" 0 "\<lambda>i. widen_rank (widen_seq x i)" 4]
    by (simp add: widen_rank_le_3 le_imp_less_Suc [of _ 3, simplified])
  then obtain N where N: "\<forall>i. widen_rank (widen_seq x i) \<le> widen_rank (widen_seq x N)" ..
  have "interval_eq (widen_seq x (Suc i)) (widen_seq x i)" if "N \<le> i" for i
  proof (rule ccontr)
    assume ne: "\<not> interval_eq (widen_seq x (Suc i)) (widen_seq x i)"
    have "interval_inv (widen_seq x i)" "interval_inv (x (Suc i))"
      using assms by (simp_all add: widen_seq_inv)
    from widen_step [OF this] ne
    have "widen_rank (widen_seq x i) < widen_rank (widen_seq x (Suc i))" by simp
    moreover have "widen_rank (widen_seq x N) \<le> widen_rank (widen_seq x i)"
      using widen_rank_mono [OF assms that] .
    ultimately show False using N [rule_format, of "Suc i"] by simp
  qed
  then show ?thesis by blast
qed


lemma widen_keeps_minus_infinity:
  assumes "interval_inv a" "interval_inv x" "\<not> is_bottom a" "i_lb a = minus_infinity"
  shows "\<not> is_bottom (widen a x) \<and> i_lb (widen a x) = minus_infinity"
proof (cases "is_bottom x")
  case True
  with assms show ?thesis by (simp add: widen_def)
next
  case False
  from assms(1) have inv: "bound_inv (i_lb a)" "bound_inv (i_ub a)"
    by (simp_all add: interval_inv_def)
  show ?thesis
    using inv assms(4) by (simp add: widen_non_bottom [OF assms(1,2,3) False] is_bottom_iff)
qed

lemma widen_keeps_plus_infinity:
  assumes "interval_inv a" "interval_inv x" "\<not> is_bottom a" "i_ub a = plus_infinity"
  shows "\<not> is_bottom (widen a x) \<and> i_ub (widen a x) = plus_infinity"
proof (cases "is_bottom x")
  case True
  with assms show ?thesis by (simp add: widen_def)
next
  case False
  from assms(1) have inv: "bound_inv (i_lb a)" "bound_inv (i_ub a)"
    by (simp_all add: interval_inv_def)
  show ?thesis
    using inv assms(4) by (simp add: widen_non_bottom [OF assms(1,2,3) False] is_bottom_iff)
qed

lemma widen_seq_keeps_minus_infinity:
  assumes "\<forall>i. interval_inv (x i)"
    and "\<not> is_bottom (widen_seq x i)" "i_lb (widen_seq x i) = minus_infinity" "i \<le> j"
  shows "\<not> is_bottom (widen_seq x j) \<and> i_lb (widen_seq x j) = minus_infinity"
  using assms(4)
proof (induction j)
  case 0
  with assms(2,3) show ?case by simp
next
  case (Suc j)
  show ?case
  proof (cases "i = Suc j")
    case True
    with assms(2,3) show ?thesis by simp
  next
    case False
    with Suc have ih: "\<not> is_bottom (widen_seq x j)" "i_lb (widen_seq x j) = minus_infinity"
      by simp_all
    have "interval_inv (widen_seq x j)" "interval_inv (x (Suc j))"
      using assms(1) by (simp_all add: widen_seq_inv)
    from widen_keeps_minus_infinity [OF this ih] show ?thesis by simp
  qed
qed

lemma widen_seq_keeps_plus_infinity:
  assumes "\<forall>i. interval_inv (x i)"
    and "\<not> is_bottom (widen_seq x i)" "i_ub (widen_seq x i) = plus_infinity" "i \<le> j"
  shows "\<not> is_bottom (widen_seq x j) \<and> i_ub (widen_seq x j) = plus_infinity"
  using assms(4)
proof (induction j)
  case 0
  with assms(2,3) show ?case by simp
next
  case (Suc j)
  show ?case
  proof (cases "i = Suc j")
    case True
    with assms(2,3) show ?thesis by simp
  next
    case False
    with Suc have ih: "\<not> is_bottom (widen_seq x j)" "i_ub (widen_seq x j) = plus_infinity"
      by simp_all
    have "interval_inv (widen_seq x j)" "interval_inv (x (Suc j))"
      using assms(1) by (simp_all add: widen_seq_inv)
    from widen_keeps_plus_infinity [OF this ih] show ?thesis by simp
  qed
qed

declare widen_seq.simps(2) [simp del]

text \<open>
  C5. Widening stabilization. For every ascending chain \<open>x\<^sub>0 \<sqsubseteq> x\<^sub>1 \<sqsubseteq> ...\<close> of intervals, the
  sequence \<open>y\<^sub>0 = x\<^sub>0\<close>, \<open>y\<^sub>i\<^sub>+\<^sub>1 = widen(y\<^sub>i, x\<^sub>i\<^sub>+\<^sub>1)\<close> changes its value at most 3 times and is
  constant from some index on. On intervals that are not bottom, widen moves a lower
  endpoint that grew downwards to \<open>-oo\<close> and an upper endpoint that grew upwards to \<open>+oo\<close>
  and keeps the other endpoints; an endpoint that moved once never moves again.
\<close>

theorem widening_stabilizes:
  assumes "\<forall>i. interval_inv (x i)" and "\<forall>i. interval_le (x i) (x (Suc i))"
  shows "(\<forall>n. changes x n \<le> 3)
       \<and> (\<exists>N. \<forall>i\<ge>N. interval_eq (widen_seq x (Suc i)) (widen_seq x i))
       \<and> (\<forall>i. \<not> is_bottom (widen_seq x i) \<and> \<not> is_bottom (x (Suc i)) \<longrightarrow>
              i_lb (widen_seq x (Suc i)) =
                (if bound_lt (i_lb (x (Suc i))) (i_lb (widen_seq x i)) then minus_infinity
                 else i_lb (widen_seq x i))
            \<and> i_ub (widen_seq x (Suc i)) =
                (if bound_lt (i_ub (widen_seq x i)) (i_ub (x (Suc i))) then plus_infinity
                 else i_ub (widen_seq x i)))
       \<and> (\<forall>i j. \<not> is_bottom (widen_seq x i) \<and> i < j
                \<and> i_lb (widen_seq x (Suc i)) \<noteq> i_lb (widen_seq x i) \<longrightarrow>
              i_lb (widen_seq x (Suc j)) = i_lb (widen_seq x j))
       \<and> (\<forall>i j. \<not> is_bottom (widen_seq x i) \<and> i < j
                \<and> i_ub (widen_seq x (Suc i)) \<noteq> i_ub (widen_seq x i) \<longrightarrow>
              i_ub (widen_seq x (Suc j)) = i_ub (widen_seq x j))"
proof -
  have inv: "interval_inv (widen_seq x i)" "interval_inv (x i)" for i
    using assms(1) by (simp_all add: widen_seq_inv)
  have count: "changes x n \<le> 3" for n
    using changes_rank [OF assms(1), of n] widen_rank_le_3 [of "widen_seq x n"] by simp
  have step: "widen_seq x (Suc i) =
      \<lparr>i_lb = (if bound_lt (i_lb (x (Suc i))) (i_lb (widen_seq x i)) then minus_infinity
               else i_lb (widen_seq x i)),
       i_ub = (if bound_lt (i_ub (widen_seq x i)) (i_ub (x (Suc i))) then plus_infinity
               else i_ub (widen_seq x i))\<rparr>"
    if "\<not> is_bottom (widen_seq x i)" "\<not> is_bottom (x (Suc i))" for i
    using widen_non_bottom [OF inv(1) inv(2) that] by (simp add: widen_seq.simps(2))
  have lower: "i_lb (widen_seq x (Suc j)) = i_lb (widen_seq x j)"
    if nb: "\<not> is_bottom (widen_seq x i)" and ij: "i < j"
      and ch: "i_lb (widen_seq x (Suc i)) \<noteq> i_lb (widen_seq x i)" for i j
  proof -
    have nbx: "\<not> is_bottom (x (Suc i))"
      using nb ch by (auto simp: widen_def widen_seq.simps(2))
    have "i_lb (widen_seq x (Suc i)) = minus_infinity"
      using ch step [OF nb nbx] by (simp split: if_splits)
    moreover have "\<not> is_bottom (widen_seq x (Suc i))"
      using step [OF nb nbx] nb inv(1) [of i]
      by (simp add: is_bottom_iff interval_inv_def)
    ultimately have k: "\<not> is_bottom (widen_seq x k) \<and> i_lb (widen_seq x k) = minus_infinity"
      if "Suc i \<le> k" for k
      using widen_seq_keeps_minus_infinity [OF assms(1) _ _ that] by blast
    from ij have "Suc i \<le> j" "Suc i \<le> Suc j" by simp_all
    from k [OF this(1)] k [OF this(2)] show ?thesis by simp
  qed
  have upper: "i_ub (widen_seq x (Suc j)) = i_ub (widen_seq x j)"
    if nb: "\<not> is_bottom (widen_seq x i)" and ij: "i < j"
      and ch: "i_ub (widen_seq x (Suc i)) \<noteq> i_ub (widen_seq x i)" for i j
  proof -
    have nbx: "\<not> is_bottom (x (Suc i))"
      using nb ch by (auto simp: widen_def widen_seq.simps(2))
    have "i_ub (widen_seq x (Suc i)) = plus_infinity"
      using ch step [OF nb nbx] by (simp split: if_splits)
    moreover have "\<not> is_bottom (widen_seq x (Suc i))"
      using step [OF nb nbx] nb inv(1) [of i]
      by (simp add: is_bottom_iff interval_inv_def)
    ultimately have k: "\<not> is_bottom (widen_seq x k) \<and> i_ub (widen_seq x k) = plus_infinity"
      if "Suc i \<le> k" for k
      using widen_seq_keeps_plus_infinity [OF assms(1) _ _ that] by blast
    from ij have "Suc i \<le> j" "Suc i \<le> Suc j" by simp_all
    from k [OF this(1)] k [OF this(2)] show ?thesis by simp
  qed
  have c1: "\<forall>n. changes x n \<le> 3" using count by blast
  have c3: "\<forall>i. \<not> is_bottom (widen_seq x i) \<and> \<not> is_bottom (x (Suc i)) \<longrightarrow>
              i_lb (widen_seq x (Suc i)) =
                (if bound_lt (i_lb (x (Suc i))) (i_lb (widen_seq x i)) then minus_infinity
                 else i_lb (widen_seq x i))
            \<and> i_ub (widen_seq x (Suc i)) =
                (if bound_lt (i_ub (widen_seq x i)) (i_ub (x (Suc i))) then plus_infinity
                 else i_ub (widen_seq x i))"
  proof (intro allI impI)
    fix i assume "\<not> is_bottom (widen_seq x i) \<and> \<not> is_bottom (x (Suc i))"
    then have "\<not> is_bottom (widen_seq x i)" "\<not> is_bottom (x (Suc i))" by simp_all
    from step [OF this] show
      "i_lb (widen_seq x (Suc i)) =
         (if bound_lt (i_lb (x (Suc i))) (i_lb (widen_seq x i)) then minus_infinity
          else i_lb (widen_seq x i))
       \<and> i_ub (widen_seq x (Suc i)) =
         (if bound_lt (i_ub (widen_seq x i)) (i_ub (x (Suc i))) then plus_infinity
          else i_ub (widen_seq x i))"
      by simp
  qed
  have c4: "\<forall>i j. \<not> is_bottom (widen_seq x i) \<and> i < j
                \<and> i_lb (widen_seq x (Suc i)) \<noteq> i_lb (widen_seq x i) \<longrightarrow>
              i_lb (widen_seq x (Suc j)) = i_lb (widen_seq x j)"
    using lower by blast
  have c5: "\<forall>i j. \<not> is_bottom (widen_seq x i) \<and> i < j
                \<and> i_ub (widen_seq x (Suc i)) \<noteq> i_ub (widen_seq x i) \<longrightarrow>
              i_ub (widen_seq x (Suc j)) = i_ub (widen_seq x j)"
    using upper by blast
  from c1 widen_seq_stable [OF assms(1)] c3 c4 c5 show ?thesis by blast
qed

lemma growing_chain_eq: "growing_chain i = \<lparr>i_lb = bound_of 0, i_ub = bound_of (int i)\<rparr>"
  by (simp add: growing_chain_def mk_interval_le)

theorem widening_stabilizes_witness:
  "changes growing_chain 4 \<le> 3
   \<and> widen_seq growing_chain 1 = \<lparr>i_lb = bound_of 0, i_ub = plus_infinity\<rparr>
   \<and> widen_seq growing_chain 4 = \<lparr>i_lb = bound_of 0, i_ub = plus_infinity\<rparr>"
proof -
  have inv: "\<forall>i. interval_inv (growing_chain i)"
    by (simp add: growing_chain_eq)
  have asc: "\<forall>i. interval_le (growing_chain i) (growing_chain (Suc i))"
    by (simp add: growing_chain_eq interval_le_def is_bottom_iff)
  have nb: "\<not> is_bottom (growing_chain i)" for i
    by (simp add: growing_chain_eq is_bottom_iff)
  note w = widening_stabilizes [OF inv asc]
  have y0: "widen_seq growing_chain 0 = \<lparr>i_lb = bound_of 0, i_ub = bound_of 0\<rparr>"
    by (simp add: growing_chain_eq)
  have s: "widen_seq growing_chain (Suc i) = \<lparr>i_lb = bound_of 0, i_ub = plus_infinity\<rparr>" for i
  proof (induction i)
    case 0
    have "\<not> is_bottom (widen_seq growing_chain 0)"
      by (simp add: growing_chain_eq is_bottom_iff)
    with w nb [of "Suc 0"] have
      "i_lb (widen_seq growing_chain (Suc 0)) =
         (if bound_lt (i_lb (growing_chain (Suc 0))) (i_lb (widen_seq growing_chain 0))
          then minus_infinity else i_lb (widen_seq growing_chain 0))"
      "i_ub (widen_seq growing_chain (Suc 0)) =
         (if bound_lt (i_ub (widen_seq growing_chain 0)) (i_ub (growing_chain (Suc 0)))
          then plus_infinity else i_ub (widen_seq growing_chain 0))"
      by blast+
    then have "i_lb (widen_seq growing_chain (Suc 0)) = bound_of 0"
      "i_ub (widen_seq growing_chain (Suc 0)) = plus_infinity"
      by (simp_all add: y0 growing_chain_eq bound_lt_def)
    then show ?case by (cases "widen_seq growing_chain (Suc 0)") simp
  next
    case (Suc i)
    have "\<not> is_bottom (widen_seq growing_chain (Suc i))" by (simp add: Suc is_bottom_iff)
    with w nb [of "Suc (Suc i)"] have
      "i_lb (widen_seq growing_chain (Suc (Suc i))) =
         (if bound_lt (i_lb (growing_chain (Suc (Suc i)))) (i_lb (widen_seq growing_chain (Suc i)))
          then minus_infinity else i_lb (widen_seq growing_chain (Suc i)))"
      "i_ub (widen_seq growing_chain (Suc (Suc i))) =
         (if bound_lt (i_ub (widen_seq growing_chain (Suc i))) (i_ub (growing_chain (Suc (Suc i))))
          then plus_infinity else i_ub (widen_seq growing_chain (Suc i)))"
      by blast+
    then have "i_lb (widen_seq growing_chain (Suc (Suc i))) = bound_of 0"
      "i_ub (widen_seq growing_chain (Suc (Suc i))) = plus_infinity"
      by (simp_all add: Suc growing_chain_eq bound_lt_def)
    then show ?case by (cases "widen_seq growing_chain (Suc (Suc i))") simp
  qed
  from w have "changes growing_chain 4 \<le> 3" by blast
  with s [of 0] s [of 3] show ?thesis by (simp add: eval_nat_numeral)
qed

section \<open>Bitwise and modular operations\<close>

lemma singleton_interval_of_number [simp]: "singleton (interval_of_number m) = Some m"
  by (simp add: singleton_def interval_of_number_def is_bottom_iff bound_eq_iff
        bound_number_def)

lemma singleton_Some_iff: "singleton a = Some m \<longleftrightarrow> a = interval_of_number m"
proof
  assume "singleton a = Some m"
  then have "i_lb a = i_ub a" "\<not> b_is_infinite (i_lb a)" "b_n (i_lb a) = m"
    by (auto simp: singleton_def bound_eq_iff bound_number_def is_infinite_def
          split: if_splits)
  then have "i_lb a = bound_of m" "i_ub a = bound_of m"
    by (simp_all add: bound_of_def)
  then show "a = interval_of_number m" by (simp add: interval_of_number_def)
qed simp

lemma top_interval_not_bottom [simp]: "\<not> is_bottom top_interval"
  by (simp add: top_interval_eq is_bottom_iff)

lemma top_interval_not_number [simp]: "top_interval \<noteq> interval_of_number k"
  by (simp add: top_interval_eq interval_of_number_def)

text \<open>
  C4, as the code has it. \<^verbatim>\<open>UDiv\<close> returns top for every pair of operands that are not
  bottom, also when both are singletons. For the operations modelled from the spec
  (\<^verbatim>\<open>And\<close>, \<^verbatim>\<open>Or\<close>, \<^verbatim>\<open>Xor\<close>, \<^verbatim>\<open>Shl\<close>, \<^verbatim>\<open>LShr\<close>, \<^verbatim>\<open>AShr\<close>, \<^verbatim>\<open>URem\<close>, \<^verbatim>\<open>SRem\<close>, with \<open>f\<close>
  the operation on numbers): two singletons \<open>[m, m]\<close> and \<open>[n, n]\<close> give the singleton of
  \<open>f m n\<close>, and operands that are not bottom and not both singletons give top.
\<close>

theorem bitwise_operations_contract:
  "(\<forall>a x. \<not> is_bottom a \<and> \<not> is_bottom x \<longrightarrow> UDiv a x = top_interval)
   \<and> (\<forall>m n. UDiv (interval_of_number m) (interval_of_number n) = top_interval)
   \<and> (\<forall>f m n. singleton_or_top f (interval_of_number m) (interval_of_number n)
                 = interval_of_number (f m n))
   \<and> (\<forall>f a x. \<not> is_bottom a \<and> \<not> is_bottom x
               \<and> \<not> (\<exists>m n. a = interval_of_number m \<and> x = interval_of_number n) \<longrightarrow>
               singleton_or_top f a x = top_interval)"
proof -
  have nb: "\<not> is_bottom (interval_of_number k)" for k
    by (simp add: interval_of_number_def is_bottom_iff)
  have "singleton_or_top f a x = top_interval"
    if "\<not> (\<exists>m n. a = interval_of_number m \<and> x = interval_of_number n)" for f a x
    using that by (auto simp: singleton_or_top_def singleton_Some_iff split: option.splits)
  then show ?thesis
    by (simp add: UDiv_def nb singleton_or_top_def)
qed

theorem bitwise_operations_contract_witness:
  "UDiv (mk_interval (bound_of 0) (bound_of 9)) (interval_of_number 3) = top_interval
   \<and> singleton_or_top (mod) (mk_interval (bound_of 0) (bound_of 9))
        (interval_of_number 3) = top_interval"
proof -
  let ?a = "mk_interval (bound_of 0) (bound_of 9)"
  have a: "?a = \<lparr>i_lb = bound_of 0, i_ub = bound_of 9\<rparr>" by (simp add: mk_interval_le)
  have "\<not> is_bottom ?a" "\<not> is_bottom (interval_of_number 3)"
    by (simp_all add: a interval_of_number_def is_bottom_iff)
  moreover have "\<not> (\<exists>m n. ?a = interval_of_number m \<and> interval_of_number 3 = interval_of_number n)"
    by (simp add: a interval_of_number_def)
  ultimately show ?thesis using bitwise_operations_contract by blast
qed

text \<open>
  The claim as the spec words it fails on \<^verbatim>\<open>UDiv\<close>: the unsigned quotient of the singletons
  \<open>[6, 6]\<close> and \<open>[3, 3]\<close> is top, not the singleton \<open>[2, 2]\<close>.
\<close>

theorem UDiv_singletons_counterexample:
  "singleton (interval_of_number 6) = Some 6 \<and> singleton (interval_of_number 3) = Some 3
   \<and> UDiv (interval_of_number 6) (interval_of_number 3) = top_interval
   \<and> UDiv (interval_of_number 6) (interval_of_number 3) \<noteq> interval_of_number 2"
proof -
  have nb: "\<not> is_bottom (interval_of_number k)" for k
    by (simp add: interval_of_number_def is_bottom_iff)
  show ?thesis by (simp add: UDiv_def nb)
qed

section \<open>Moving statements between blocks\<close>

text \<open>
  C6, as the code has it. For every pair of basic blocks, after \<^verbatim>\<open>move_back(other)\<close> the
  statement list of the destination is its old list followed by the statements of \<open>other\<close>
  in order, and nothing else of either block changes; \<open>other\<close> keeps the length of its
  list, one moved-from statement in the place of each statement.
\<close>

theorem move_back_appends:
  "m_ts (fst (move_back mv this other)) = m_ts this @ m_ts other
   \<and> m_ts (snd (move_back mv this other)) = map mv (m_ts other)
   \<and> length (m_ts (snd (move_back mv this other))) = length (m_ts other)
   \<and> fst (move_back mv this other) = this\<lparr>m_ts := m_ts this @ m_ts other\<rparr>
   \<and> m_label (snd (move_back mv this other)) = m_label other
   \<and> m_prev (snd (move_back mv this other)) = m_prev other
   \<and> m_next (snd (move_back mv this other)) = m_next other"
  by (simp add: move_back_def)

text \<open>
  The claim as the spec words it, "other's statement list is left empty", fails: a block
  with one statement still has a list of one statement after its statements were moved.
\<close>

theorem move_back_other_not_empty_counterexample:
  "m_ts (fst (move_back id (new_block (0::nat)\<lparr>m_ts := [''s1'']\<rparr>)
                             (new_block 1\<lparr>m_ts := [''s2'']\<rparr>))) = [''s1'', ''s2'']
   \<and> m_ts (snd (move_back id (new_block (0::nat)\<lparr>m_ts := [''s1'']\<rparr>)
                               (new_block 1\<lparr>m_ts := [''s2'']\<rparr>))) \<noteq> []
   \<and> length (m_ts (snd (move_back id (new_block (0::nat)\<lparr>m_ts := [''s1'']\<rparr>)
                               (new_block 1\<lparr>m_ts := [''s2'']\<rparr>)))) = 1"
  by (simp add: move_back_def new_block_def)

section \<open>The edge mirror\<close>

lemma set_insert_adjacent [simp]: "set (insert_adjacent c e) = insert e (set c)"
  by (auto simp: insert_adjacent_def)

lemma distinct_insert_adjacent [simp]: "distinct (insert_adjacent c e) = distinct c"
  by (auto simp: insert_adjacent_def)

lemma set_remove_adjacent [simp]: "set (remove_adjacent c e) = set c - {e}"
  by (auto simp: remove_adjacent_def)

lemma distinct_remove_adjacent [simp]: "distinct c \<Longrightarrow> distinct (remove_adjacent c e)"
  by (simp add: remove_adjacent_def distinct_removeAll)

lemma insert_adjacent_member: "e \<in> set c \<Longrightarrow> insert_adjacent c e = c"
  by (simp add: insert_adjacent_def)

lemma insert_adjacent_idem [simp]:
  "insert_adjacent (insert_adjacent c e) e = insert_adjacent c e"
  by (simp add: insert_adjacent_def)

lemma connect_absent: "g a = None \<or> g b = None \<Longrightarrow> connect a b g = g"
  by (auto simp: connect_def split: option.splits)

lemma connect_same:
  "g a = Some this \<Longrightarrow>
   connect a a g =
     g(a \<mapsto> this\<lparr>m_next := insert_adjacent (m_next this) (m_label this),
                   m_prev := insert_adjacent (m_prev this) (m_label this)\<rparr>)"
  by (simp add: connect_def)

lemma connect_other:
  "g a = Some this \<Longrightarrow> g b = Some other \<Longrightarrow> a \<noteq> b \<Longrightarrow>
   connect a b g =
     g(a \<mapsto> this\<lparr>m_next := insert_adjacent (m_next this) (m_label other)\<rparr>,
       b \<mapsto> other\<lparr>m_prev := insert_adjacent (m_prev other) (m_label this)\<rparr>)"
  by (simp add: connect_def)

lemma disconnect_absent: "g a = None \<or> g b = None \<Longrightarrow> disconnect a b g = g"
  by (auto simp: disconnect_def split: option.splits)

lemma disconnect_same:
  "g a = Some this \<Longrightarrow>
   disconnect a a g =
     g(a \<mapsto> this\<lparr>m_next := remove_adjacent (m_next this) (m_label this),
                   m_prev := remove_adjacent (m_prev this) (m_label this)\<rparr>)"
  by (simp add: disconnect_def)

lemma disconnect_other:
  "g a = Some this \<Longrightarrow> g b = Some other \<Longrightarrow> a \<noteq> b \<Longrightarrow>
   disconnect a b g =
     g(a \<mapsto> this\<lparr>m_next := remove_adjacent (m_next this) (m_label other)\<rparr>,
       b \<mapsto> other\<lparr>m_prev := remove_adjacent (m_prev other) (m_label this)\<rparr>)"
  by (simp add: disconnect_def)

lemma connect_cases:
  obtains (absent) "g a = None \<or> g b = None" "connect a b g = g"
  | (same) this where "a = b" "g a = Some this"
      "connect a b g =
         g(a \<mapsto> this\<lparr>m_next := insert_adjacent (m_next this) (m_label this),
                       m_prev := insert_adjacent (m_prev this) (m_label this)\<rparr>)"
  | (other) this other where "a \<noteq> b" "g a = Some this" "g b = Some other"
      "connect a b g =
         g(a \<mapsto> this\<lparr>m_next := insert_adjacent (m_next this) (m_label other)\<rparr>,
           b \<mapsto> other\<lparr>m_prev := insert_adjacent (m_prev other) (m_label this)\<rparr>)"
proof (cases "g a")
  case None
  then show ?thesis using absent connect_absent [of g a b] by simp
next
  case sa: (Some this)
  show ?thesis
  proof (cases "g b")
    case None
    then show ?thesis using absent connect_absent [of g a b] by simp
  next
    case sb: (Some other)
    show ?thesis
    proof (cases "a = b")
      case True
      with sa show ?thesis using same connect_same [of g a this] by simp
    next
      case False
      with sa sb show ?thesis using other connect_other [of g a this b other] by simp
    qed
  qed
qed

lemma disconnect_cases:
  obtains (absent) "g a = None \<or> g b = None" "disconnect a b g = g"
  | (same) this where "a = b" "g a = Some this"
      "disconnect a b g =
         g(a \<mapsto> this\<lparr>m_next := remove_adjacent (m_next this) (m_label this),
                       m_prev := remove_adjacent (m_prev this) (m_label this)\<rparr>)"
  | (other) this other where "a \<noteq> b" "g a = Some this" "g b = Some other"
      "disconnect a b g =
         g(a \<mapsto> this\<lparr>m_next := remove_adjacent (m_next this) (m_label other)\<rparr>,
           b \<mapsto> other\<lparr>m_prev := remove_adjacent (m_prev other) (m_label this)\<rparr>)"
proof (cases "g a")
  case None
  then show ?thesis using absent disconnect_absent [of g a b] by simp
next
  case sa: (Some this)
  show ?thesis
  proof (cases "g b")
    case None
    then show ?thesis using absent disconnect_absent [of g a b] by simp
  next
    case sb: (Some other)
    show ?thesis
    proof (cases "a = b")
      case True
      with sa show ?thesis using same disconnect_same [of g a this] by simp
    next
      case False
      with sa sb show ?thesis using other disconnect_other [of g a this b other] by simp
    qed
  qed
qed

lemma connect_labelled: "labelled g \<Longrightarrow> labelled (connect a b g)"
  by (cases rule: connect_cases [where g=g and a=a and b=b]) (auto simp: labelled_def)

lemma disconnect_labelled: "labelled g \<Longrightarrow> labelled (disconnect a b g)"
  by (cases rule: disconnect_cases [where g=g and a=a and b=b]) (auto simp: labelled_def)

lemma connect_no_duplicates: "no_duplicates g \<Longrightarrow> no_duplicates (connect a b g)"
  by (cases rule: connect_cases [where g=g and a=a and b=b]) (auto simp: no_duplicates_def)

lemma disconnect_no_duplicates: "no_duplicates g \<Longrightarrow> no_duplicates (disconnect a b g)"
  by (cases rule: disconnect_cases [where g=g and a=a and b=b]) (auto simp: no_duplicates_def)

lemma connect_edge_mirror:
  assumes "labelled g" "edge_mirror g"
  shows "edge_mirror (connect a b g)"
proof (cases rule: connect_cases [where g=g and a=a and b=b])
  case absent
  with assms show ?thesis by simp
next
  case (same this)
  from assms(1) same(2) have "m_label this = a" by (simp add: labelled_def)
  with assms(2) same show ?thesis
    unfolding edge_mirror_def by (auto split: if_splits)
next
  case (other this other)
  from assms(1) other(2,3) have "m_label this = a" "m_label other = b"
    by (simp_all add: labelled_def)
  with assms(2) other show ?thesis
    unfolding edge_mirror_def by (auto split: if_splits)
qed

lemma disconnect_edge_mirror:
  assumes "labelled g" "edge_mirror g"
  shows "edge_mirror (disconnect a b g)"
proof (cases rule: disconnect_cases [where g=g and a=a and b=b])
  case absent
  with assms show ?thesis by simp
next
  case (same this)
  from assms(1) same(2) have "m_label this = a" by (simp add: labelled_def)
  with assms(2) same show ?thesis
    unfolding edge_mirror_def by (auto split: if_splits)
next
  case (other this other)
  from assms(1) other(2,3) have "m_label this = a" "m_label other = b"
    by (simp_all add: labelled_def)
  with assms(2) other show ?thesis
    unfolding edge_mirror_def by (auto split: if_splits)
qed

lemma apply_edge_ops_invariant:
  "labelled g \<Longrightarrow> edge_mirror g \<Longrightarrow> no_duplicates g \<Longrightarrow>
   labelled (apply_edge_ops ops g) \<and> edge_mirror (apply_edge_ops ops g)
   \<and> no_duplicates (apply_edge_ops ops g)"
proof (induction ops arbitrary: g)
  case Nil
  then show ?case by simp
next
  case (Cons x xs)
  show ?case
  proof (cases x)
    case (Connect a b)
    with Cons.prems Cons.IH [of "connect a b g"] show ?thesis
      by (simp add: connect_labelled connect_edge_mirror connect_no_duplicates)
  next
    case (Disconnect a b)
    with Cons.prems Cons.IH [of "disconnect a b g"] show ?thesis
      by (simp add: disconnect_labelled disconnect_edge_mirror disconnect_no_duplicates)
  qed
qed

lemma connect_idem: "connect a b (connect a b g) = connect a b g"
  by (cases rule: connect_cases [where g=g and a=a and b=b]) (auto simp: connect_def)


lemma connect_connected:
  assumes "g a = Some this" "g b = Some other" "m_label other \<in> set (m_next this)"
  shows "\<exists>this'. connect a b g a = Some this' \<and> m_next this' = m_next this"
proof (cases "a = b")
  case True
  with assms have "other = this" by simp
  with assms(3) have "insert_adjacent (m_next this) (m_label this) = m_next this"
    by (simp add: insert_adjacent_member)
  with connect_same [of g a this] assms(1) True show ?thesis by simp
next
  case False
  from assms(3) have "insert_adjacent (m_next this) (m_label other) = m_next this"
    by (simp add: insert_adjacent_member)
  with connect_other [of g a this b other] assms(1,2) False show ?thesis by simp
qed

text \<open>
  C7. Edge mirror and idempotent edge insertion. In a store whose blocks are stored under
  their labels, with mirrored and duplicate-free adjacency lists (a store of new blocks is
  one), after any sequence of \<^verbatim>\<open>>>\<close> and \<^verbatim>\<open>-=\<close> calls: for every pair of blocks \<open>(a, b)\<close>,
  \<open>b\<close> is a successor of \<open>a\<close> if and only if \<open>a\<close> is a predecessor of \<open>b\<close>; no adjacency list
  holds a label twice; connecting a pair a second time changes nothing, and connecting a
  pair that is already connected leaves the successors of the source as they are.
\<close>

theorem edge_mirror_invariant:
  assumes "labelled g" and "edge_mirror g" and "no_duplicates g"
  shows "(\<forall>a b ba bb. apply_edge_ops ops g a = Some ba \<and> apply_edge_ops ops g b = Some bb \<longrightarrow>
            (b \<in> set (m_next ba)) = (a \<in> set (m_prev bb)))
       \<and> (\<forall>a ba. apply_edge_ops ops g a = Some ba \<longrightarrow>
            distinct (m_next ba) \<and> distinct (m_prev ba))
       \<and> (\<forall>a b. connect a b (connect a b (apply_edge_ops ops g))
                 = connect a b (apply_edge_ops ops g))
       \<and> (\<forall>a b ba bb. apply_edge_ops ops g a = Some ba \<and> apply_edge_ops ops g b = Some bb
              \<and> b \<in> set (m_next ba) \<longrightarrow>
            (\<exists>ba'. connect a b (apply_edge_ops ops g) a = Some ba' \<and> m_next ba' = m_next ba))"
proof -
  let ?g = "apply_edge_ops ops g"
  from apply_edge_ops_invariant [OF assms]
  have l: "labelled ?g" and m: "edge_mirror ?g" and d: "no_duplicates ?g" by simp_all
  have "\<exists>ba'. connect a b ?g a = Some ba' \<and> m_next ba' = m_next ba"
    if "?g a = Some ba" "?g b = Some bb" "b \<in> set (m_next ba)" for a b ba bb
  proof -
    from l that(2) have "m_label bb = b" by (simp add: labelled_def)
    with that show ?thesis using connect_connected [of ?g a ba b bb] by simp
  qed
  then have 4: "\<forall>a b ba bb. ?g a = Some ba \<and> ?g b = Some bb \<and> b \<in> set (m_next ba) \<longrightarrow>
            (\<exists>ba'. connect a b ?g a = Some ba' \<and> m_next ba' = m_next ba)"
    by blast
  from m have 1: "\<forall>a b ba bb. ?g a = Some ba \<and> ?g b = Some bb \<longrightarrow>
            (b \<in> set (m_next ba)) = (a \<in> set (m_prev bb))"
    unfolding edge_mirror_def .
  from d have 2: "\<forall>a ba. ?g a = Some ba \<longrightarrow> distinct (m_next ba) \<and> distinct (m_prev ba)"
    unfolding no_duplicates_def .
  from 1 2 4 show ?thesis by (simp only: connect_idem) blast
qed

lemma two_blocks_run:
  "apply_edge_ops some_edge_ops two_blocks =
     [0 \<mapsto> \<lparr>m_label = 0, m_ts = [], m_prev = [], m_next = [1]\<rparr>,
      1 \<mapsto> \<lparr>m_label = 1, m_ts = [], m_prev = [0, 1], m_next = [1]\<rparr>]"
  by (simp add: some_edge_ops_def two_blocks_def new_block_def connect_def disconnect_def
        insert_adjacent_def remove_adjacent_def fun_upd_twist)

theorem edge_mirror_invariant_witness:
  "apply_edge_ops some_edge_ops two_blocks 0 =
     Some \<lparr>m_label = 0, m_ts = [], m_prev = [], m_next = [1]\<rparr>
   \<and> apply_edge_ops some_edge_ops two_blocks 1 =
     Some \<lparr>m_label = 1, m_ts = [], m_prev = [0, 1], m_next = [1]\<rparr>
   \<and> connect 0 1 (connect 0 1 (apply_edge_ops some_edge_ops two_blocks))
     = connect 0 1 (apply_edge_ops some_edge_ops two_blocks)"
proof -
  have "labelled two_blocks" "edge_mirror two_blocks" "no_duplicates two_blocks"
    by (simp_all add: labelled_def edge_mirror_def no_duplicates_def two_blocks_def
          new_block_def)
  from edge_mirror_invariant [OF this, of some_edge_ops] show ?thesis
    by (simp add: two_blocks_run)
qed

section \<open>The reversed view\<close>

text \<open>
  C8, as the code has it. Building a reversed view never fails. Of its members only
  \<^verbatim>\<open>entry()\<close> looks at the exit of the graph: it fails with NoExit when the graph has no
  exit and is the exit of the graph otherwise. With or without an exit, \<^verbatim>\<open>exit()\<close> is the
  entry of the graph, \<^verbatim>\<open>has_exit()\<close> is true, the successors of a block are its predecessors
  in the graph and the predecessors its successors (failing only for a label that is not in
  the graph), a block view lists the statements of its block backwards, and \<^verbatim>\<open>simplify()\<close>
  changes neither the view nor the graph.
\<close>

theorem reversed_view_contract:
  "(m_exit g = None \<longrightarrow> rev_entry (cfg_rev g) = Inl NoExit)
   \<and> (\<forall>x. m_exit g = Some x \<longrightarrow> rev_entry (cfg_rev g) = Inr x)
   \<and> rev_exit (cfg_rev g) = entry g
   \<and> rev_has_exit (cfg_rev g)
   \<and> rev_next_nodes (cfg_rev g) l = prev_nodes g l
   \<and> rev_prev_nodes (cfg_rev g) l = next_nodes g l
   \<and> (\<forall>b. m_blocks g l = Some b \<longrightarrow>
         rev_get_node (cfg_rev g) l = Inr (Basic_block_rev b)
         \<and> rev_statements (Basic_block_rev b) = rev (m_ts b)
         \<and> rev_next_blocks (Basic_block_rev b) = m_prev b
         \<and> rev_prev_blocks (Basic_block_rev b) = m_next b
         \<and> rev_next_nodes (cfg_rev g) l = Inr (m_prev b)
         \<and> rev_prev_nodes (cfg_rev g) l = Inr (m_next b))
   \<and> (m_blocks g l = None \<longrightarrow>
         rev_next_nodes (cfg_rev g) l = Inl UnknownLabel
         \<and> rev_prev_nodes (cfg_rev g) l = Inl UnknownLabel)
   \<and> rev_simplify (cfg_rev g) = cfg_rev g
   \<and> r_cfg (rev_simplify (cfg_rev g)) = g"
  by (simp add: cfg_rev_def rev_entry_def rev_exit_def rev_has_exit_def rev_next_nodes_def
        rev_prev_nodes_def rev_get_node_def rev_simplify_def has_exit_def exit_label_def
        rev_statements_def rev_next_blocks_def rev_prev_blocks_def next_nodes_def
        prev_nodes_def get_node_def)

lemma entry_exit_cfg_eq:
  "entry_exit_cfg =
     \<lparr>m_entry = ''entry'', m_exit = Some ''exit'',
      m_blocks = [''entry'' \<mapsto> \<lparr>m_label = ''entry'', m_ts = [], m_prev = [], m_next = [''exit'']\<rparr>,
                  ''exit'' \<mapsto> \<lparr>m_label = ''exit'', m_ts = [], m_prev = [''entry''], m_next = []\<rparr>]\<rparr>"
  by (simp add: entry_exit_cfg_def cfg_entry_exit_def connect_def new_block_def
        insert_adjacent_def)

theorem reversed_view_contract_witness:
  "rev_entry (cfg_rev no_exit_cfg) = Inl NoExit
   \<and> rev_entry (cfg_rev entry_exit_cfg) = Inr ''exit''
   \<and> rev_exit (cfg_rev entry_exit_cfg) = ''entry''
   \<and> rev_next_nodes (cfg_rev entry_exit_cfg) ''exit'' = Inr [''entry'']
   \<and> rev_prev_nodes (cfg_rev entry_exit_cfg) ''exit'' = Inr []
   \<and> rev_next_nodes (cfg_rev entry_exit_cfg) ''other'' = Inl UnknownLabel"
proof -
  have 1: "m_exit no_exit_cfg = None" by (simp add: no_exit_cfg_def cfg_entry_def)
  have 2: "m_exit entry_exit_cfg = Some ''exit''" "entry entry_exit_cfg = ''entry''"
    by (simp_all add: entry_exit_cfg_eq entry_def)
  have 3: "m_blocks entry_exit_cfg ''exit'' =
      Some \<lparr>m_label = ''exit'', m_ts = [], m_prev = [''entry''], m_next = []\<rparr>"
    "m_blocks entry_exit_cfg ''other'' = None"
    by (simp_all add: entry_exit_cfg_eq)
  from reversed_view_contract [of no_exit_cfg] 1
  have "rev_entry (cfg_rev no_exit_cfg) = Inl NoExit" by blast
  moreover from reversed_view_contract [of entry_exit_cfg "''exit''"] 2 3(1)
  have "rev_entry (cfg_rev entry_exit_cfg) = Inr ''exit''"
    "rev_exit (cfg_rev entry_exit_cfg) = ''entry''"
    "rev_next_nodes (cfg_rev entry_exit_cfg) ''exit'' = Inr [''entry'']"
    "rev_prev_nodes (cfg_rev entry_exit_cfg) ''exit'' = Inr []"
    by (simp_all add: prev_nodes_def next_nodes_def get_node_def)
  moreover from reversed_view_contract [of entry_exit_cfg "''other''"] 3(2)
  have "rev_next_nodes (cfg_rev entry_exit_cfg) ''other'' = Inl UnknownLabel" by blast
  ultimately show ?thesis by simp
qed

text \<open>
  The claim as the spec words it, "constructing or using a reversed view over a CFG with no
  exit fails with NoExit", fails: over the graph \<^verbatim>\<open>cfg_t("entry")\<close>, which has no exit, the
  view is built and its members other than \<^verbatim>\<open>entry()\<close> return.
\<close>

theorem reversed_view_without_exit_counterexample:
  "\<not> has_exit no_exit_cfg
   \<and> r_cfg (cfg_rev no_exit_cfg) = no_exit_cfg
   \<and> rev_has_exit (cfg_rev no_exit_cfg)
   \<and> rev_exit (cfg_rev no_exit_cfg) = ''entry''
   \<and> rev_next_nodes (cfg_rev no_exit_cfg) ''entry'' = Inr []
   \<and> rev_next_nodes (cfg_rev no_exit_cfg) ''entry'' \<noteq> Inl NoExit
   \<and> rev_get_node (cfg_rev no_exit_cfg) ''entry'' = Inr (Basic_block_rev (new_block ''entry''))
   \<and> rev_simplify (cfg_rev no_exit_cfg) = cfg_rev no_exit_cfg"
  by (simp add: no_exit_cfg_def cfg_entry_def cfg_rev_def has_exit_def rev_has_exit_def
        rev_exit_def entry_def rev_next_nodes_def prev_nodes_def get_node_def new_block_def
        rev_get_node_def rev_simplify_def)

section \<open>Soundness of interval arithmetic\<close>

lemma gamma_iff:
  "k \<in> gamma i \<longleftrightarrow> bound_le (i_lb i) (bound_of k) \<and> bound_le (bound_of k) (i_ub i)"
  by (simp add: gamma_def)

lemma gamma_not_bottom:
  assumes "interval_inv i" "k \<in> gamma i"
  shows "\<not> is_bottom i"
proof -
  from assms(1) have "bound_inv (i_lb i)" "bound_inv (i_ub i)" by (simp_all add: interval_inv_def)
  with assms(2) have "bound_le (i_lb i) (i_ub i)"
    using bound_le_trans [of "i_lb i" "bound_of k" "i_ub i"] by (simp add: gamma_iff)
  then show ?thesis by (simp add: is_bottom_iff)
qed

lemma gamma_contains: "interval_inv i \<Longrightarrow> k \<in> gamma i \<longleftrightarrow> contains i k"
  using gamma_not_bottom [of i k] by (auto simp: contains_def gamma_iff)








subsection \<open>Multiplication\<close>

lemma bound_mul_simps [simp]:
  "bound_mul (bound_of k) (bound_of l) = bound_of (k * l)"
  "bound_mul (bound_of k) plus_infinity =
     (if k = 0 then bound_of 0 else if 0 < k then plus_infinity else minus_infinity)"
  "bound_mul (bound_of k) minus_infinity =
     (if k = 0 then bound_of 0 else if 0 < k then minus_infinity else plus_infinity)"
  "bound_mul plus_infinity (bound_of l) =
     (if l = 0 then bound_of 0 else if 0 < l then plus_infinity else minus_infinity)"
  "bound_mul minus_infinity (bound_of l) =
     (if l = 0 then bound_of 0 else if 0 < l then minus_infinity else plus_infinity)"
  "bound_mul plus_infinity plus_infinity = plus_infinity"
  "bound_mul plus_infinity minus_infinity = minus_infinity"
  "bound_mul minus_infinity plus_infinity = minus_infinity"
  "bound_mul minus_infinity minus_infinity = plus_infinity"
  by (auto simp: bound_mul_def)

lemma bound_mul_inv [simp]: "bound_inv a \<Longrightarrow> bound_inv b \<Longrightarrow> bound_inv (bound_mul a b)"
  by (cases a rule: bound_inv_cases; cases b rule: bound_inv_cases) simp_all







lemma bound_min_inv [simp]: "bound_inv a \<Longrightarrow> bound_inv b \<Longrightarrow> bound_inv (bound_min a b)"
  by (simp add: bound_min_def)

lemma bound_max_inv [simp]: "bound_inv a \<Longrightarrow> bound_inv b \<Longrightarrow> bound_inv (bound_max a b)"
  by (simp add: bound_max_def)



lemma bound_min4_inv [simp]:
  "bound_inv a \<Longrightarrow> bound_inv b \<Longrightarrow> bound_inv c \<Longrightarrow> bound_inv d \<Longrightarrow>
   bound_inv (bound_min4 a b c d)"
  by (simp add: bound_min4_def bound_min3_def)

lemma bound_max4_inv [simp]:
  "bound_inv a \<Longrightarrow> bound_inv b \<Longrightarrow> bound_inv c \<Longrightarrow> bound_inv d \<Longrightarrow>
   bound_inv (bound_max4 a b c d)"
  by (simp add: bound_max4_def bound_max3_def)






subsection \<open>Division\<close>

lemma number_div_pos: "0 < l \<Longrightarrow> number_div k l = (if 0 \<le> k then k div l else - ((- k) div l))"
  by (auto simp: number_div_def sgn_if)

lemma number_div_minus_minus: "number_div (- k) (- l) = number_div k l"
  by (simp add: number_div_def)

lemma number_div_zero [simp]: "number_div 0 l = 0"
  by (simp add: number_div_def)

lemma number_div_mono_pos:
  assumes "0 < l" "k \<le> k'"
  shows "number_div k l \<le> number_div k' l"
proof -
  have "k div l \<le> k' div l" "(- k') div l \<le> (- k) div l"
    using assms by (simp_all add: zdiv_mono1)
  moreover have "0 \<le> k' div l" if "0 \<le> k'" using that assms(1) by (simp add: pos_imp_zdiv_nonneg_iff)
  moreover have "0 \<le> (- k) div l" if "k < 0" using that assms(1) by (simp add: pos_imp_zdiv_nonneg_iff)
  ultimately show ?thesis using assms by (auto simp: number_div_pos)
qed


text \<open>The truncated quotient lies between the quotients by the ends of a divisor range that
  does not cross zero, and between the quotients of the ends of a dividend range.\<close>

lemma number_div_bracket_dividend:
  assumes "l \<noteq> 0" "p \<le> x" "x \<le> q"
  shows "number_div p l \<le> number_div x l \<and> number_div x l \<le> number_div q l
       \<or> number_div q l \<le> number_div x l \<and> number_div x l \<le> number_div p l"
proof (cases "0 < l")
  case True
  with assms show ?thesis by (simp add: number_div_mono_pos)
next
  case False
  with assms(1) have "0 < - l" by simp
  from number_div_mono_pos [OF this, of "- x" "- p"] number_div_mono_pos [OF this, of "- q" "- x"]
    assms(2,3)
  show ?thesis by (simp add: number_div_minus_minus)
qed



lemma bound_div_spec_simps:
  "bound_div_spec (bound_of k) (bound_of l) =
     (if l = 0 then Inl DivisionByZero else Inr (bound_of (number_div k l)))"
  "bound_div_spec plus_infinity (bound_of l) =
     (if l = 0 then Inl DivisionByZero
      else if 0 < l then Inr plus_infinity else Inr minus_infinity)"
  "bound_div_spec minus_infinity (bound_of l) =
     (if l = 0 then Inl DivisionByZero
      else if 0 < l then Inr minus_infinity else Inr plus_infinity)"
  "bound_div_spec (bound_of k) plus_infinity = Inr (bound_of 0)"
  "bound_div_spec (bound_of k) minus_infinity = Inr (bound_of 0)"
  "bound_div_spec plus_infinity plus_infinity = Inr plus_infinity"
  "bound_div_spec minus_infinity minus_infinity = Inr plus_infinity"
  "bound_div_spec plus_infinity minus_infinity = Inr minus_infinity"
  "bound_div_spec minus_infinity plus_infinity = Inr minus_infinity"
  by (simp_all add: bound_div_spec_def)

text \<open>
  The quotient of section 4.1 and the quotient of \<^verbatim>\<open>bound_t::operator/\<close> are the same but for a
  finite bound divided by an infinite one.
\<close>

lemma bound_div_spec_code:
  "bound_inv a \<Longrightarrow> bound_inv x \<Longrightarrow> is_infinite a \<or> is_finite x \<Longrightarrow>
   bound_div_spec a x = bound_div a x"
  by (cases a rule: bound_inv_cases; cases x rule: bound_inv_cases)
     (simp_all add: bound_div_spec_simps bound_div_fin_fin bound_div_inf_fin)





















text \<open>The divisor \<open>[1, +oo]\<close>: the quotients by its infinite bound are 0.\<close>

lemma interval_div_infinite_divisor:
  "interval_div \<lparr>i_lb = bound_of 1, i_ub = bound_of 5\<rparr> \<lparr>i_lb = bound_of 1, i_ub = plus_infinity\<rparr>
     = Inr \<lparr>i_lb = bound_of 0, i_ub = bound_of 5\<rparr>"
proof -
  have "div_corners \<lparr>i_lb = bound_of 1, i_ub = bound_of 5\<rparr>
          \<lparr>i_lb = bound_of 1, i_ub = plus_infinity\<rparr>
        = Inr \<lparr>i_lb = bound_of 0, i_ub = bound_of 5\<rparr>"
    by (simp add: div_corners_def is_bottom_iff bound_div_spec_simps bound_min4_def
          bound_min3_def bound_min_def bound_max4_def bound_max3_def bound_max_def
          mk_interval_le number_div_def)
  then show ?thesis
    by (simp add: interval_div_def div_split_dividend_def contains_def is_bottom_iff)
qed



section \<open>The merge pass\<close>

lemma bind_err_simps [simp]:
  "bind_err (Inl e) f = Inl e" "bind_err (Inr v) f = f v"
  by (simp_all add: bind_err_def)

lemma get_node_Some: "m_blocks g l = Some b \<Longrightarrow> get_node g l = Inr b"
  by (simp add: get_node_def)

lemma has_one_child_Some:
  "m_blocks g l = Some b \<Longrightarrow> has_one_child g l = Inr (length (m_next b) = 1)"
  by (simp add: has_one_child_def next_nodes_def get_node_def)

lemma has_one_parent_Some:
  "m_blocks g l = Some b \<Longrightarrow> has_one_parent g l = Inr (length (m_prev b) = 1)"
  by (simp add: has_one_parent_def prev_nodes_def get_node_def)

lemma get_child_Some:
  "m_blocks g l = Some b \<Longrightarrow> m_next b = [c] \<Longrightarrow> m_blocks g c = Some x \<Longrightarrow>
   get_child g l = Inr c"
  by (simp add: get_child_def has_one_child_Some next_nodes_def get_node_def)

lemma get_parent_Some:
  "m_blocks g l = Some b \<Longrightarrow> m_prev b = [p] \<Longrightarrow> m_blocks g p = Some x \<Longrightarrow>
   get_parent g l = Inr p"
  by (simp add: get_parent_def has_one_parent_Some prev_nodes_def get_node_def)

text \<open>
  The calls of \<^verbatim>\<open>merge_blocks_rec\<close> that merge nothing: at a visited block, at a block
  that does not have exactly one successor and exactly one predecessor, and at a block
  whose predecessor does not have exactly one successor. The last two go on with the
  successors of the block.
\<close>

lemma merge_blocks_rec_visited:
  "curId \<in> vis \<Longrightarrow> merge_blocks_rec (Suc k) mv remove curId (vis, g) = Inr (vis, g)"
  by simp

lemma merge_blocks_rec_no_merge:
  assumes "curId \<notin> vis" "m_blocks g curId = Some cur"
    and "length (m_next cur) \<noteq> 1 \<or> length (m_prev cur) \<noteq> 1"
  shows "merge_blocks_rec (Suc k) mv remove curId (vis, g) =
           for_each_label (merge_blocks_rec k mv remove) (m_next cur) (insert curId vis, g)"
  using assms
  by (auto simp: get_node_Some has_one_child_Some has_one_parent_Some Let_def)

lemma merge_blocks_rec_parent_busy:
  assumes "c \<notin> vis" "m_blocks g c = Some cur" "m_prev cur = [p]" "m_next cur = [ch]"
    and "m_blocks g p = Some pb" "m_blocks g ch = Some x"
    and "m_blocks g (m_label pb) = Some pb'" "length (m_next pb') \<noteq> 1"
  shows "merge_blocks_rec (Suc k) mv remove c (vis, g) =
           for_each_label (merge_blocks_rec k mv remove) (m_next cur) (insert c vis, g)"
  using assms
  by (simp add: get_node_Some has_one_child_Some has_one_parent_Some Let_def
        get_parent_Some [OF assms(2,3,5)] get_child_Some [OF assms(2,4,6)])

declare merge_blocks_rec.simps(2) [simp del]

subsection \<open>Runs of the pass\<close>

lemma short_cfg_blocks:
  "m_entry short_cfg = ''entry''"
  "m_blocks short_cfg ''entry'' =
     Some \<lparr>m_label = ''entry'', m_ts = [''s0''], m_prev = [], m_next = [''exit'']\<rparr>"
  "m_blocks short_cfg ''exit'' =
     Some \<lparr>m_label = ''exit'', m_ts = [''s3''], m_prev = [''entry''], m_next = []\<rparr>"
  by (simp_all add: short_cfg_def)

lemma short_cfg_run:
  "merge_blocks_rec (Suc (Suc k)) mv remove ''entry'' ({}, short_cfg)
     = Inr ({''exit'', ''entry''}, short_cfg)"
proof -
  note s = short_cfg_blocks
  have ex: "merge_blocks_rec (Suc k) mv remove ''exit'' ({''entry''}, short_cfg)
        = Inr ({''exit'', ''entry''}, short_cfg)"
    using merge_blocks_rec_no_merge [OF _ s(3), of "{''entry''}" k mv remove] by simp
  show ?thesis
    using merge_blocks_rec_no_merge [OF _ s(2), of "{}" "Suc k" mv remove] ex by simp
qed

lemma branch_cfg_blocks:
  "m_entry branch_cfg = ''entry''"
  "m_blocks branch_cfg ''entry'' =
     Some \<lparr>m_label = ''entry'', m_ts = [''s0''], m_prev = [], m_next = [''a'']\<rparr>"
  "m_blocks branch_cfg ''a'' =
     Some \<lparr>m_label = ''a'', m_ts = [''s1''], m_prev = [''entry''], m_next = [''b'', ''exit'']\<rparr>"
  "m_blocks branch_cfg ''b'' =
     Some \<lparr>m_label = ''b'', m_ts = [''s2''], m_prev = [''a''], m_next = [''exit'']\<rparr>"
  "m_blocks branch_cfg ''exit'' =
     Some \<lparr>m_label = ''exit'', m_ts = [''s3''], m_prev = [''a'', ''b''], m_next = []\<rparr>"
  by (simp_all add: branch_cfg_def)

lemma branch_cfg_run:
  "merge_blocks_rec (Suc (Suc (Suc (Suc k)))) mv remove ''entry'' ({}, branch_cfg)
     = Inr ({''exit'', ''b'', ''a'', ''entry''}, branch_cfg)"
proof -
  note b = branch_cfg_blocks
  let ?all = "{''exit'', ''b'', ''a'', ''entry''}"
  have ex: "merge_blocks_rec (Suc k) mv remove ''exit'' ({''b'', ''a'', ''entry''}, branch_cfg)
        = Inr (?all, branch_cfg)"
    using merge_blocks_rec_no_merge [OF _ b(5), of "{''b'', ''a'', ''entry''}" k mv remove] by simp
  have ex': "merge_blocks_rec (Suc (Suc k)) mv remove ''exit'' (?all, branch_cfg)
        = Inr (?all, branch_cfg)"
    by (simp add: merge_blocks_rec_visited)
  have bb: "merge_blocks_rec (Suc (Suc k)) mv remove ''b'' ({''a'', ''entry''}, branch_cfg)
        = Inr (?all, branch_cfg)"
    using merge_blocks_rec_parent_busy
      [OF _ b(4) _ _ b(3) b(5), of "{''a'', ''entry''}" _ "Suc k" mv remove] b(3) ex
    by simp
  have aa: "merge_blocks_rec (Suc (Suc (Suc k))) mv remove ''a'' ({''entry''}, branch_cfg)
        = Inr (?all, branch_cfg)"
    using merge_blocks_rec_no_merge [OF _ b(3), of "{''entry''}" "Suc (Suc k)" mv remove] bb ex'
    by simp
  show ?thesis
    using merge_blocks_rec_no_merge [OF _ b(2), of "{}" "Suc (Suc (Suc k))" mv remove] aa
    by simp
qed

lemma diamond_cfg_blocks:
  "m_entry diamond_cfg = ''entry''"
  "m_blocks diamond_cfg ''entry'' =
     Some \<lparr>m_label = ''entry'', m_ts = [''s0''], m_prev = [], m_next = [''a'']\<rparr>"
  "m_blocks diamond_cfg ''a'' =
     Some \<lparr>m_label = ''a'', m_ts = [''s1''], m_prev = [''entry''], m_next = [''b'', ''c'']\<rparr>"
  "m_blocks diamond_cfg ''b'' =
     Some \<lparr>m_label = ''b'', m_ts = [''s2''], m_prev = [''a''], m_next = [''exit'']\<rparr>"
  "m_blocks diamond_cfg ''c'' =
     Some \<lparr>m_label = ''c'', m_ts = [''s4''], m_prev = [''a''], m_next = [''exit'']\<rparr>"
  "m_blocks diamond_cfg ''exit'' =
     Some \<lparr>m_label = ''exit'', m_ts = [''s3''], m_prev = [''b'', ''c''], m_next = []\<rparr>"
  by (simp_all add: diamond_cfg_def)

lemma diamond_cfg_run:
  "merge_blocks_rec (Suc (Suc (Suc (Suc k)))) mv remove ''entry'' ({}, diamond_cfg)
     = Inr ({''c'', ''exit'', ''b'', ''a'', ''entry''}, diamond_cfg)"
proof -
  note d = diamond_cfg_blocks
  let ?three = "{''exit'', ''b'', ''a'', ''entry''}"
  let ?all = "{''c'', ''exit'', ''b'', ''a'', ''entry''}"
  have ex: "merge_blocks_rec (Suc k) mv remove ''exit'' ({''b'', ''a'', ''entry''}, diamond_cfg)
        = Inr (?three, diamond_cfg)"
    using merge_blocks_rec_no_merge [OF _ d(6), of "{''b'', ''a'', ''entry''}" k mv remove] by simp
  have ex': "merge_blocks_rec (Suc k) mv remove ''exit'' (?all, diamond_cfg)
        = Inr (?all, diamond_cfg)"
    by (simp add: merge_blocks_rec_visited)
  have bb: "merge_blocks_rec (Suc (Suc k)) mv remove ''b'' ({''a'', ''entry''}, diamond_cfg)
        = Inr (?three, diamond_cfg)"
    using merge_blocks_rec_parent_busy
      [OF _ d(4) _ _ d(3) d(6), of "{''a'', ''entry''}" _ "Suc k" mv remove] d(3) ex
    by simp
  have cc: "merge_blocks_rec (Suc (Suc k)) mv remove ''c'' (?three, diamond_cfg)
        = Inr (?all, diamond_cfg)"
    using merge_blocks_rec_parent_busy
      [OF _ d(5) _ _ d(3) d(6), of ?three _ "Suc k" mv remove] d(3) ex'
    by simp
  have aa: "merge_blocks_rec (Suc (Suc (Suc k))) mv remove ''a'' ({''entry''}, diamond_cfg)
        = Inr (?all, diamond_cfg)"
    using merge_blocks_rec_no_merge [OF _ d(3), of "{''entry''}" "Suc (Suc k)" mv remove] bb cc
    by simp
  show ?thesis
    using merge_blocks_rec_no_merge [OF _ d(2), of "{}" "Suc (Suc (Suc k))" mv remove] aa
    by simp
qed

text \<open>
  C3, the code at three graphs. In \<open>entry \<rightarrow> exit\<close> the exit block has exactly one
  predecessor, the entry, whose one successor it is. In \<open>entry \<rightarrow> a\<close>, \<open>a \<rightarrow> b\<close>, \<open>a \<rightarrow> exit\<close>,
  \<open>b \<rightarrow> exit\<close> and in \<open>entry \<rightarrow> a\<close>, \<open>a \<rightarrow> b\<close>, \<open>a \<rightarrow> c\<close>, \<open>b \<rightarrow> exit\<close>, \<open>c \<rightarrow> exit\<close> the block \<open>a\<close>
  has exactly one predecessor, the entry, whose one successor it is. For every bound on the
  depth from 2 on in the first graph and from 4 on in the other two, whatever \<^verbatim>\<open>remove\<close>
  does and whatever a moved statement is left as, \<^verbatim>\<open>merge_blocks_rec\<close> from the entry returns
  with every block visited and the graph as it was, and so does \<^verbatim>\<open>merge_blocks\<close>: the exit
  block has no successor and \<open>a\<close> has two, and the pass merges only a block that has exactly
  one successor.
\<close>

theorem merge_pass_skips_block_without_one_successor:
  "prev_nodes short_cfg ''exit'' = Inr [''entry'']
   \<and> next_nodes short_cfg ''entry'' = Inr [''exit'']
   \<and> merge_blocks_rec (Suc (Suc k)) mv remove ''entry'' ({}, short_cfg)
       = Inr ({''entry'', ''exit''}, short_cfg)
   \<and> merge_blocks (Suc (Suc k)) mv remove short_cfg = Inr short_cfg
   \<and> prev_nodes branch_cfg ''a'' = Inr [''entry'']
   \<and> next_nodes branch_cfg ''entry'' = Inr [''a'']
   \<and> merge_blocks_rec (Suc (Suc (Suc (Suc k)))) mv remove ''entry'' ({}, branch_cfg)
       = Inr ({''entry'', ''a'', ''b'', ''exit''}, branch_cfg)
   \<and> merge_blocks (Suc (Suc (Suc (Suc k)))) mv remove branch_cfg = Inr branch_cfg
   \<and> prev_nodes diamond_cfg ''a'' = Inr [''entry'']
   \<and> next_nodes diamond_cfg ''entry'' = Inr [''a'']
   \<and> merge_blocks_rec (Suc (Suc (Suc (Suc k)))) mv remove ''entry'' ({}, diamond_cfg)
       = Inr ({''entry'', ''a'', ''b'', ''c'', ''exit''}, diamond_cfg)
   \<and> merge_blocks (Suc (Suc (Suc (Suc k)))) mv remove diamond_cfg = Inr diamond_cfg"
proof -
  have s: "{''exit'', ''entry''} = {''entry'', ''exit''}"
    "{''exit'', ''b'', ''a'', ''entry''} = {''entry'', ''a'', ''b'', ''exit''}"
    "{''c'', ''exit'', ''b'', ''a'', ''entry''} = {''entry'', ''a'', ''b'', ''c'', ''exit''}"
    by auto
  note runs = short_cfg_run [of k mv remove] branch_cfg_run [of k mv remove]
    diamond_cfg_run [of k mv remove]
  show ?thesis
    unfolding merge_blocks_def entry_def
    by (simp add: runs s [symmetric] short_cfg_blocks branch_cfg_blocks diamond_cfg_blocks
          prev_nodes_def next_nodes_def get_node_def)
qed

end
